theory Spec2Isabelle
  imports Complex_Main "HOL-Library.Monad_Syntax"
begin

section \<open>Numeric conventions\<close>

text \<open>
  The plugin computes on C++ \<^verbatim>\<open>float\<close> and \<^verbatim>\<open>int\<close>. An \<^verbatim>\<open>int\<close> is modelled as an
  \<^typ>\<open>int\<close>; the integers of this program (stage counters, buffer sizes, head cursors)
  stay far below \<open>2 ^ 31\<close>. A \<^verbatim>\<open>float\<close> value is a \<^typ>\<open>real\<close>, and the arithmetic
  on it is read in two ways, each with its own definitions:

  \<^item> exactly, with no rounding, no infinity and no NaN. This is the reading of the
    difuser, of \<^verbatim>\<open>processBlock\<close> and of the definitions \<open>ReadDelay\<close>, \<open>ReadFactor\<close> and
    \<open>process\<close>. It carries the statements about integer quotients, the density clamp,
    the frame of \<^verbatim>\<open>ProcessSample\<close>, the mix ratio, read positions and silence, none of
    which turns on the last bits of a value.
  \<^item> in binary32, every arithmetic operation rounded on its own to the nearest
    binary32 number, ties to even. This is the reading of \<open>ReadDelay32\<close>, \<open>process32\<close> and
    \<open>processRepeat32\<close>. It carries the statements about the round trip through the
    circular buffer, the interpolation and the attack of the envelope follower, which
    do turn on the last bits.

  Two C++ operations differ from their HOL namesakes and are written out:
  \<^item> \<^verbatim>\<open>static_cast<int>(x)\<close> and \<^verbatim>\<open>(int)(x)\<close> truncate toward zero (a value
    outside the range of \<^verbatim>\<open>int\<close> is undefined in C++; no run below comes near it);
  \<^item> \<^verbatim>\<open>a / b\<close> on two \<^verbatim>\<open>int\<close> operands is integer division truncating toward
    zero, also when the quotient is then converted to \<^verbatim>\<open>float\<close>. Both divisors
    of the program, the clamped density and \<^verbatim>\<open>N_STAGES\<close>, are at least \<open>2\<close>.
\<close>

definition static_cast_int :: "real \<Rightarrow> int" where
  "static_cast_int x = (if 0 \<le> x then \<lfloor>x\<rfloor> else \<lceil>x\<rceil>)"

definition int_div :: "int \<Rightarrow> int \<Rightarrow> int" where
  "int_div a b = sgn a * sgn b * (\<bar>a\<bar> div \<bar>b\<bar>)"

section \<open>CircularBuffer\<close>

text \<open>
  \<^verbatim>\<open>m_buffer\<close> is a one-channel \<^verbatim>\<open>juce::AudioBuffer<float>\<close>: a list of samples.
  \<^verbatim>\<open>getSample\<close> and \<^verbatim>\<open>setSample\<close> outside the allocated range are undefined
  behaviour in C++; the model returns \<open>None\<close> there.
\<close>

record CircularBuffer =
  m_buffer :: "real list"
  m_head :: int
  m_size :: int

definition getSample :: "CircularBuffer \<Rightarrow> int \<Rightarrow> real option" where
  "getSample cb i =
     (if 0 \<le> i \<and> i < int (length (m_buffer cb)) then Some (m_buffer cb ! nat i) else None)"

text \<open>
  \<^verbatim>\<open>Init\<close> sets the head and the size and calls \<^verbatim>\<open>setSize(1, size)\<close>, which allocates
  without clearing: the fresh contents are whatever the memory \<open>mem\<close> holds.
\<close>

definition CircularBuffer_Init :: "(nat \<Rightarrow> real) \<Rightarrow> int \<Rightarrow> CircularBuffer" where
  "CircularBuffer_Init mem sz =
     \<lparr>m_buffer = map mem [0..<nat sz], m_head = 0, m_size = sz\<rparr>"

definition CircularBuffer_Clear :: "CircularBuffer \<Rightarrow> CircularBuffer" where
  "CircularBuffer_Clear cb =
     cb\<lparr>m_head := 0, m_buffer := replicate (length (m_buffer cb)) 0\<rparr>"

definition WriteSample :: "CircularBuffer \<Rightarrow> real \<Rightarrow> CircularBuffer option" where
  "WriteSample cb sample =
     (if 0 \<le> m_head cb \<and> m_head cb < int (length (m_buffer cb))
      then Some (cb\<lparr>m_buffer := (m_buffer cb)[nat (m_head cb) := sample],
                    m_head := (if m_head cb + 1 \<ge> m_size cb then 0 else m_head cb + 1)\<rparr>)
      else None)"

text \<open>The locals of \<^verbatim>\<open>ReadDelay\<close>, one definition each, in the order of the source.\<close>

definition readIdx :: "CircularBuffer \<Rightarrow> real \<Rightarrow> real" where
  "readIdx cb sample = real_of_int (m_head cb) + real_of_int (m_size cb) - sample"

definition flr :: "CircularBuffer \<Rightarrow> real \<Rightarrow> int" where
  "flr cb sample = static_cast_int (readIdx cb sample)"

definition iPrev :: "CircularBuffer \<Rightarrow> real \<Rightarrow> int" where
  "iPrev cb sample =
     (if flr cb sample < m_size cb then flr cb sample else flr cb sample - m_size cb)"

definition iNext :: "CircularBuffer \<Rightarrow> real \<Rightarrow> int" where
  "iNext cb sample =
     (let n = flr cb sample + 1 in if n < m_size cb then n else n - m_size cb)"

definition weight :: "CircularBuffer \<Rightarrow> real \<Rightarrow> real" where
  "weight cb sample = readIdx cb sample - real_of_int (flr cb sample)"

definition ReadDelay :: "CircularBuffer \<Rightarrow> real \<Rightarrow> real option" where
  "ReadDelay cb sample =
     do {
       p \<leftarrow> getSample cb (iPrev cb sample);
       n \<leftarrow> getSample cb (iNext cb sample);
       Some (p * (1 - weight cb sample) + n * weight cb sample)
     }"

definition factorDelay :: "CircularBuffer \<Rightarrow> real \<Rightarrow> real" where
  "factorDelay cb factor = 2 + real_of_int (m_size cb) * factor * 0.98"

definition ReadFactor :: "CircularBuffer \<Rightarrow> real \<Rightarrow> real option" where
  "ReadFactor cb factor = ReadDelay cb (factorDelay cb factor)"

section \<open>DelayLineDifuser\<close>

definition N_DELAY_LINES :: int where
  "N_DELAY_LINES = 4"

definition N_STAGES :: int where
  "N_STAGES = 8"

text \<open>\<^verbatim>\<open>m_buffer[N_STAGES][N_DELAY_LINES]\<close>: a list of stages, each a list of lines.\<close>

type_synonym DelayLineDifuser = "CircularBuffer list list"

definition default_factors :: "real list" where
  "default_factors = [0.49, 1.41, 6.85, 11.23]"

definition DelayLineDifuser_Init ::
    "(nat \<Rightarrow> nat \<Rightarrow> nat \<Rightarrow> real) \<Rightarrow> real \<Rightarrow> int \<Rightarrow> DelayLineDifuser" where
  "DelayLineDifuser_Init mem delayFactor sampleRate =
     (let sampleFactor = delayFactor * real_of_int sampleRate * 0.001 in
      map (\<lambda>stage.
        map (\<lambda>delayLine.
          let factor = default_factors ! delayLine * (0.87 + real stage)
          in CircularBuffer_Init (mem stage delayLine)
               (1 + static_cast_int (sampleFactor * factor)))
          [0..<nat N_DELAY_LINES])
        [0..<nat N_STAGES])"

definition DelayLineDifuser_Clear :: "DelayLineDifuser \<Rightarrow> DelayLineDifuser" where
  "DelayLineDifuser_Clear dl = map (map CircularBuffer_Clear) dl"

text \<open>The clamp at the head of \<^verbatim>\<open>ProcessSample\<close>.\<close>

definition densitySafe :: "int \<Rightarrow> int" where
  "densitySafe density =
     (let d = (if density > N_STAGES then N_STAGES else density)
      in if d < 2 then 2 else d)"

text \<open>
  \<^verbatim>\<open>dryMix = (1.0f - stage / densitySafe) * 0.5f\<close>: both operands of the quotient are
  \<^verbatim>\<open>int\<close>, so the quotient is an integer division.
\<close>

definition dryMix :: "int \<Rightarrow> int \<Rightarrow> real" where
  "dryMix stage dSafe = (1 - real_of_int (int_div stage dSafe)) * 0.5"

text \<open>
  \<^verbatim>\<open>(1.0f - (densitySafe / N_STAGES) * 0.75f)\<close>, the last factor of the returned
  value: again a quotient of two \<^verbatim>\<open>int\<close> operands.
\<close>

definition outputScale :: "int \<Rightarrow> real" where
  "outputScale dSafe = 1 - real_of_int (int_div dSafe N_STAGES) * 0.75"

text \<open>The four assignments to \<^verbatim>\<open>delayIn\<close> at the end of a stage.\<close>

definition nextDelayIn :: "real \<Rightarrow> real \<Rightarrow> real list \<Rightarrow> real list option" where
  "nextDelayIn dry inSample delayOut =
     (case delayOut of
        [o0, o1, o2, o3] \<Rightarrow>
          Some [dry * inSample + o0 + o1 + o2 + o3,
                dry * inSample + o0 - o1 + o2 - o3,
                dry * inSample + o0 + o1 - o2 - o3,
                dry * inSample + o0 - o1 - o2 + o3]
      | _ \<Rightarrow> None)"

text \<open>
  The inner loop over \<^verbatim>\<open>delayLine\<close>: write the line's input, then read the line at
  \<open>factor\<close>. It returns the updated lines and \<^verbatim>\<open>delayOut\<close>.
\<close>

fun linesLoop ::
    "real \<Rightarrow> CircularBuffer list \<Rightarrow> real list \<Rightarrow> (CircularBuffer list \<times> real list) option" where
  "linesLoop factor [] delayIn = Some ([], [])"
| "linesLoop factor (b # bs) [] = None"
| "linesLoop factor (b # bs) (x # xs) =
     do {
       b' \<leftarrow> WriteSample b x;
       r \<leftarrow> ReadFactor b' factor;
       (bs', rs) \<leftarrow> linesLoop factor bs xs;
       Some (b' # bs', r # rs)
     }"

text \<open>
  The outer loop \<^verbatim>\<open>for (stage = 0; stage < densitySafe; stage++)\<close>, running over the
  stages from index \<open>stage\<close> on. Running past the end of the array is \<open>None\<close>.
\<close>

fun stagesLoop ::
    "real \<Rightarrow> real \<Rightarrow> int \<Rightarrow> int \<Rightarrow> CircularBuffer list list \<Rightarrow> real list
      \<Rightarrow> (CircularBuffer list list \<times> real list) option" where
  "stagesLoop inSample factor dSafe stage [] delayIn =
     (if stage < dSafe then None else Some ([], delayIn))"
| "stagesLoop inSample factor dSafe stage (st # rest) delayIn =
     (if stage < dSafe then
        do {
          (st', delayOut) \<leftarrow> linesLoop factor st delayIn;
          delayIn' \<leftarrow> nextDelayIn (dryMix stage dSafe) inSample delayOut;
          (rest', delayIn'') \<leftarrow> stagesLoop inSample factor dSafe (stage + 1) rest delayIn';
          Some (st' # rest', delayIn'')
        }
      else Some (st # rest, delayIn))"

definition seedDelayIn :: "real \<Rightarrow> real list" where
  "seedDelayIn inSample = [0.8 * inSample, 1.2 * inSample, - inSample - 0.1, - inSample + 0.1]"

definition ProcessSample ::
    "DelayLineDifuser \<Rightarrow> real \<Rightarrow> real \<Rightarrow> int \<Rightarrow> (real \<times> DelayLineDifuser) option" where
  "ProcessSample dl inSample factor density =
     do {
       (dl', delayIn) \<leftarrow>
         stagesLoop inSample factor (densitySafe density) 0 dl (seedDelayIn inSample);
       Some (0.015 * (delayIn ! 0 + delayIn ! 1 + delayIn ! 2 + delayIn ! 3)
               * outputScale (densitySafe density), dl')
     }"

section \<open>EnvelopeFollower\<close>

record EnvelopeFollower =
  m_SampleRate :: int
  m_Envelope :: real
  m_AttackCoef :: real
  m_ReleaseCoef :: real

definition SetCoef :: "EnvelopeFollower \<Rightarrow> real \<Rightarrow> real \<Rightarrow> EnvelopeFollower" where
  "SetCoef ef attackTime releaseTime =
     ef\<lparr>m_AttackCoef := exp (- 1000 / (attackTime * real_of_int (m_SampleRate ef))),
        m_ReleaseCoef := exp (- 1000 / (releaseTime * real_of_int (m_SampleRate ef)))\<rparr>"

text \<open>\<^verbatim>\<open>process\<close> returns the new envelope and stores it.\<close>

definition process :: "EnvelopeFollower \<Rightarrow> real \<Rightarrow> real \<times> EnvelopeFollower" where
  "process ef inp =
     (let tmp = \<bar>inp\<bar>;
          e = (if tmp > m_Envelope ef
               then tmp + m_AttackCoef ef * (m_Envelope ef - tmp)
               else tmp + m_ReleaseCoef ef * (m_Envelope ef - tmp))
      in (e, ef\<lparr>m_Envelope := e\<rparr>))"

section \<open>processBlock\<close>

text \<open>The mix ratio of \<^verbatim>\<open>processBlock\<close>, lines 328 to 332.\<close>

definition dynamicMix :: "real \<Rightarrow> real \<Rightarrow> real" where
  "dynamicMix envelopedB thresholddB =
     (if envelopedB > thresholddB then min ((envelopedB - thresholddB) / 12) 1 else 0)"

text \<open>
  The sample loop of one channel. \<^verbatim>\<open>juce::Decibels::gainToDecibels\<close> belongs to the
  JUCE library and is a parameter \<open>g2d\<close>; \<open>volume\<close> is the gain that
  \<^verbatim>\<open>decibelsToGain\<close> returned.
\<close>

fun processChannel ::
    "(real \<Rightarrow> real) \<Rightarrow> real \<Rightarrow> int \<Rightarrow> real \<Rightarrow> real \<Rightarrow> real
      \<Rightarrow> DelayLineDifuser \<Rightarrow> EnvelopeFollower \<Rightarrow> real list
      \<Rightarrow> (real list \<times> DelayLineDifuser \<times> EnvelopeFollower) option" where
  "processChannel g2d factor density mix volume thresholddB dl ef [] = Some ([], dl, ef)"
| "processChannel g2d factor density mix volume thresholddB dl ef (inp # rest) =
     do {
       (inDifuse, dl') \<leftarrow> ProcessSample dl inp factor density;
       let (env, ef') = process ef inDifuse;
       let envelopedB = g2d env;
       let dyn = dynamicMix envelopedB thresholddB;
       let inDifuseDynamic = dyn * inDifuse + (1 - dyn) * inp;
       let out = volume * (mix * inDifuseDynamic + (1 - mix) * inp);
       (outs, dl'', ef'') \<leftarrow>
         processChannel g2d factor density mix volume thresholddB dl' ef' rest;
       Some (out # outs, dl'', ef'')
     }"

section \<open>prepareToPlay\<close>

text \<open>
  \<^verbatim>\<open>prepareToPlay\<close> initialises each channel's difuser with the maximum diffusion
  length \<open>5\<close> and the host's sample rate, and clears it.
\<close>

definition prepareToPlay_difuser ::
    "(nat \<Rightarrow> nat \<Rightarrow> nat \<Rightarrow> real) \<Rightarrow> int \<Rightarrow> DelayLineDifuser" where
  "prepareToPlay_difuser mem sampleRate =
     DelayLineDifuser_Clear (DelayLineDifuser_Init mem 5 sampleRate)"

section \<open>Repeated calls\<close>

text \<open>Writing a sequence of samples, one \<^verbatim>\<open>WriteSample\<close> call each.\<close>

fun writeSamples :: "CircularBuffer \<Rightarrow> real list \<Rightarrow> CircularBuffer option" where
  "writeSamples cb [] = Some cb"
| "writeSamples cb (x # xs) = do { cb' \<leftarrow> WriteSample cb x; writeSamples cb' xs }"

text \<open>The difuser fed a block of samples, one \<^verbatim>\<open>ProcessSample\<close> call each.\<close>

fun ProcessSamples ::
    "DelayLineDifuser \<Rightarrow> real \<Rightarrow> int \<Rightarrow> real list \<Rightarrow> (real list \<times> DelayLineDifuser) option" where
  "ProcessSamples dl factor density [] = Some ([], dl)"
| "ProcessSamples dl factor density (x # xs) =
     do {
       (w, dl') \<leftarrow> ProcessSample dl x factor density;
       (ws, dl'') \<leftarrow> ProcessSamples dl' factor density xs;
       Some (w # ws, dl'')
     }"

section \<open>The envelope follower of prepareToPlay, and JUCE's decibel conversion\<close>

text \<open>
  A fresh \<^verbatim>\<open>EnvelopeFollower\<close> has the member initialisers of the header;
  \<^verbatim>\<open>Init\<close> stores the sample rate; \<^verbatim>\<open>prepareToPlay\<close> calls \<^verbatim>\<open>Init\<close> and then
  \<^verbatim>\<open>SetCoef(10, 200)\<close>.
\<close>

definition EnvelopeFollower_new :: EnvelopeFollower where
  "EnvelopeFollower_new =
     \<lparr>m_SampleRate = 0, m_Envelope = 0, m_AttackCoef = 0, m_ReleaseCoef = 0\<rparr>"

definition EnvelopeFollower_Init :: "EnvelopeFollower \<Rightarrow> int \<Rightarrow> EnvelopeFollower" where
  "EnvelopeFollower_Init ef sampleRate = ef\<lparr>m_SampleRate := sampleRate\<rparr>"

definition prepareToPlay_envelope :: "int \<Rightarrow> EnvelopeFollower" where
  "prepareToPlay_envelope sampleRate =
     SetCoef (EnvelopeFollower_Init EnvelopeFollower_new sampleRate) 10 200"

text \<open>
  \<^verbatim>\<open>juce::Decibels::gainToDecibels\<close> is a function of the JUCE library, not of this
  repository. As JUCE documents it: \<open>20 * log10 gain\<close>, never below \<open>-100\<close> dB, and
  \<open>-100\<close> dB for a gain of zero or less. It instantiates the parameter \<open>g2d\<close> of
  \<open>processChannel\<close> where a concrete run is evaluated.
\<close>

definition gainToDecibels :: "real \<Rightarrow> real" where
  "gainToDecibels gain = (if gain > 0 then max (- 100) (log 10 gain * 20) else - 100)"

section \<open>Notions for the proofs about silence\<close>

text \<open>A line of capacity \<open>n\<close> right after \<^verbatim>\<open>Clear\<close>.\<close>

definition cleared :: "int \<Rightarrow> CircularBuffer" where
  "cleared n = \<lparr>m_buffer = replicate (nat n) 0, m_head = 0, m_size = n\<rparr>"

text \<open>
  A line is ready when its storage has \<open>m_size\<close> samples, at least two, and its head is
  inside. The sample written last sits one position before the head.
\<close>

definition lineReady :: "CircularBuffer \<Rightarrow> bool" where
  "lineReady cb \<longleftrightarrow>
     2 \<le> m_size cb \<and> length (m_buffer cb) = nat (m_size cb) \<and>
     0 \<le> m_head cb \<and> m_head cb < m_size cb"

definition lastWritten :: "CircularBuffer \<Rightarrow> real" where
  "lastWritten cb =
     m_buffer cb ! nat (if m_head cb = 0 then m_size cb - 1 else m_head cb - 1)"

text \<open>
  Four line values are balanced when the first is zero and the other three sum to zero.
  The seeds of a zero input are balanced, and the mixing matrix keeps balanced values
  balanced when the input sample is zero.
\<close>

definition balanced :: "real list \<Rightarrow> bool" where
  "balanced v \<longleftrightarrow> (\<exists>a b c. v = [0, a, b, c] \<and> a + b + c = 0)"

definition stageReady :: "CircularBuffer list \<Rightarrow> bool" where
  "stageReady st \<longleftrightarrow> list_all lineReady st \<and> balanced (map lastWritten st)"

section \<open>Binary32 rounding\<close>

text \<open>
  A finite binary32 number is an integer multiple \<open>m * 2 ^ (e - 23)\<close> with
  \<open>\<bar>m\<bar> < 2 ^ 24\<close> and an exponent \<open>e\<close> from \<open>-126\<close> to \<open>127\<close>; the numbers with
  \<open>\<bar>m\<bar> < 2 ^ 23\<close> at \<open>e = -126\<close> are the subnormal ones. An arithmetic operation on
  \<^verbatim>\<open>float\<close> operands returns the binary32 number nearest to the exact result, and of
  two nearest ones the one with the even \<open>m\<close>.

  \<open>round_even\<close> rounds a real to the nearest integer, ties to even.
\<close>

definition round_even :: "real \<Rightarrow> int" where
  "round_even y =
     (let f = \<lfloor>y\<rfloor>; r = y - of_int f
      in if r < 1 / 2 then f else if 1 / 2 < r then f + 1 else if even f then f else f + 1)"

text \<open>
  The exponent of the binade of \<open>x\<close>: the largest \<open>e\<close> from \<open>127\<close> down to \<open>-126\<close> with
  \<open>2 ^ e \<le> \<bar>x\<bar>\<close>, and \<open>-126\<close> below that (the subnormal range, zero included).
\<close>

fun expo_scan :: "nat \<Rightarrow> int \<Rightarrow> real \<Rightarrow> int" where
  "expo_scan 0 e x = e"
| "expo_scan (Suc n) e x = (if 2 powi e \<le> x then e else expo_scan n (e - 1) x)"

definition f32_exponent :: "real \<Rightarrow> int" where
  "f32_exponent x = expo_scan 253 127 \<bar>x\<bar>"

text \<open>The unit in the last place at \<open>x\<close>, the distance between two neighbouring numbers.\<close>

definition f32_ulp :: "real \<Rightarrow> real" where
  "f32_ulp x = 2 powi (f32_exponent x - 23)"

text \<open>
  Rounding to binary32. The exponent stops at \<open>127\<close>: a result of magnitude \<open>2 ^ 128\<close>
  or more, which the machine turns into an infinity, is rounded here on the grid of the
  last binade. The statements below bound the operands so that no operation comes there;
  infinities and NaN are not values of this model.
\<close>

definition f32 :: "real \<Rightarrow> real" where
  "f32 x = of_int (round_even (x / f32_ulp x)) * f32_ulp x"

section \<open>ReadDelay and process in binary32\<close>

text \<open>
  The locals of \<^verbatim>\<open>ReadDelay\<close> again, with the roundings of the source: \<^verbatim>\<open>m_head +
  bufferSize\<close> is an \<^verbatim>\<open>int\<close> sum converted to \<^verbatim>\<open>float\<close> and the subtraction of the
  delay is rounded; \<^verbatim>\<open>readIdx - flr\<close> converts \<^verbatim>\<open>flr\<close> and rounds the difference; the
  return expression rounds \<^verbatim>\<open>1.f - weight\<close>, each of the two products and their sum.
  Each operation is rounded on its own: no fused multiply-add and no wider intermediate
  format.
\<close>

definition readIdx32 :: "CircularBuffer \<Rightarrow> real \<Rightarrow> real" where
  "readIdx32 cb sample = f32 (f32 (real_of_int (m_head cb + m_size cb)) - sample)"

definition flr32 :: "CircularBuffer \<Rightarrow> real \<Rightarrow> int" where
  "flr32 cb sample = static_cast_int (readIdx32 cb sample)"

definition iPrev32 :: "CircularBuffer \<Rightarrow> real \<Rightarrow> int" where
  "iPrev32 cb sample =
     (if flr32 cb sample < m_size cb then flr32 cb sample else flr32 cb sample - m_size cb)"

definition iNext32 :: "CircularBuffer \<Rightarrow> real \<Rightarrow> int" where
  "iNext32 cb sample =
     (let n = flr32 cb sample + 1 in if n < m_size cb then n else n - m_size cb)"

definition weight32 :: "CircularBuffer \<Rightarrow> real \<Rightarrow> real" where
  "weight32 cb sample = f32 (readIdx32 cb sample - f32 (real_of_int (flr32 cb sample)))"

definition ReadDelay32 :: "CircularBuffer \<Rightarrow> real \<Rightarrow> real option" where
  "ReadDelay32 cb sample =
     do {
       p \<leftarrow> getSample cb (iPrev32 cb sample);
       n \<leftarrow> getSample cb (iNext32 cb sample);
       Some (f32 (f32 (p * f32 (1 - weight32 cb sample)) + f32 (n * weight32 cb sample)))
     }"



section \<open>The difuser: integer quotients, clamping and frame\<close>

lemma int_div_small: "0 \<le> a \<Longrightarrow> a < b \<Longrightarrow> int_div a b = 0"
  by (simp add: int_div_def)

lemma dryMix_const: "0 \<le> stage \<Longrightarrow> stage < dSafe \<Longrightarrow> dryMix stage dSafe = 1 / 2"
  by (simp add: dryMix_def int_div_small)

lemma outputScale_below_8: "0 \<le> dSafe \<Longrightarrow> dSafe < 8 \<Longrightarrow> outputScale dSafe = 1"
  by (simp add: outputScale_def N_STAGES_def int_div_small)

text \<open>
  C1. The claim: the dry bleed of stage \<open>s\<close> is \<open>(1 - s / density) * 0.5\<close> with a
  real-valued quotient, so it strictly decreases from stage to stage. The code divides
  two \<^verbatim>\<open>int\<close>s: the quotient is \<open>0\<close> at every stage of the loop and the dry bleed is
  \<open>0.5\<close> throughout (lemma \<open>dryMix_const\<close>). At density \<open>2\<close> the claim gives
  \<open>0.25\<close> at stage \<open>1\<close>; the code gives \<open>0.5\<close> at stages \<open>0\<close> and \<open>1\<close>, and with the
  input sample \<open>1\<close> on a cleared difuser the four line values after the loop are
  \<open>0.5\<close> each, where the claimed bleed would leave \<open>0.25\<close>.
\<close>

theorem dryMix_integer_quotient:
  "dryMix 0 2 = 1 / 2 \<and> dryMix 1 2 = 1 / 2 \<and>
   map_option snd
     (stagesLoop 1 0 2 0 (prepareToPlay_difuser (\<lambda>_ _ _. 0) 1000) (seedDelayIn 1))
     = Some [1 / 2, 1 / 2, 1 / 2, 1 / 2]"
  by code_simp

text \<open>
  C2. The claim: the returned value carries the factor \<open>1 - (density / 8) * 0.75\<close> with a
  real-valued quotient: \<open>0.8125\<close> at density \<open>2\<close>, \<open>0.625\<close> at \<open>4\<close>, \<open>0.25\<close> at \<open>8\<close>.
  The code divides two \<^verbatim>\<open>int\<close>s: the factor is \<open>1\<close> for every density below \<open>8\<close>
  (lemma \<open>outputScale_below_8\<close>) and \<open>0.25\<close> at \<open>8\<close>. With the input sample \<open>1\<close> at
  density \<open>2\<close> on a cleared difuser the line sum is \<open>2\<close> and the code returns
  \<open>0.015 * 2 * 1 = 0.03\<close>, where the claim gives \<open>0.015 * 2 * 0.8125\<close>.
\<close>

theorem outputScale_integer_quotient:
  "outputScale (densitySafe 2) = 1 \<and> outputScale (densitySafe 4) = 1 \<and>
   outputScale (densitySafe 8) = 1 / 4 \<and>
   map_option fst (ProcessSample (prepareToPlay_difuser (\<lambda>_ _ _. 0) 1000) 1 0 2)
     = Some (3 / 100)"
  by code_simp

text \<open>
  C5. Density clamping: a density below \<open>2\<close> gives the result and the state of density
  \<open>2\<close>, a density above \<open>8\<close> those of density \<open>8\<close>, from every state, for every input
  sample and factor.
\<close>

theorem ProcessSample_density_clamp:
  "(density < 2 \<longrightarrow>
      ProcessSample dl inSample factor density = ProcessSample dl inSample factor 2) \<and>
   (density > 8 \<longrightarrow>
      ProcessSample dl inSample factor density = ProcessSample dl inSample factor 8)"
  by (simp add: ProcessSample_def densitySafe_def N_STAGES_def)

theorem ProcessSample_density_clamp_witness:
  "ProcessSample (prepareToPlay_difuser (\<lambda>_ _ _. 0) 1000) 1 0 (- 3)
     = ProcessSample (prepareToPlay_difuser (\<lambda>_ _ _. 0) 1000) 1 0 2 \<and>
   ProcessSample (prepareToPlay_difuser (\<lambda>_ _ _. 0) 1000) 1 0 11
     = ProcessSample (prepareToPlay_difuser (\<lambda>_ _ _. 0) 1000) 1 0 8 \<and>
   ProcessSample (prepareToPlay_difuser (\<lambda>_ _ _. 0) 1000) 1 0 2 \<noteq> None"
proof -
  have some: "ProcessSample (prepareToPlay_difuser (\<lambda>_ _ _. 0) 1000) 1 0 2 \<noteq> None"
    by code_simp
  show ?thesis
    using ProcessSample_density_clamp
            [of "- 3" "prepareToPlay_difuser (\<lambda>_ _ _. 0) 1000" 1 0]
          ProcessSample_density_clamp
            [of 11 "prepareToPlay_difuser (\<lambda>_ _ _. 0) 1000" 1 0]
          some
    by simp
qed



text \<open>The stage loop leaves every stage from index \<open>dSafe\<close> on as it was.\<close>

lemma stagesLoop_frame:
  "stagesLoop inSample factor dSafe stage sts delayIn = Some (sts', delayIn') \<Longrightarrow>
     length sts' = length sts \<and>
     (\<forall>i < length sts. dSafe \<le> stage + int i \<longrightarrow> sts' ! i = sts ! i)"
proof (induction sts arbitrary: stage delayIn sts' delayIn')
  case Nil
  then show ?case by (simp split: if_splits)
next
  case (Cons st rest)
  show ?case
  proof (cases "stage < dSafe")
    case False
    with Cons.prems show ?thesis by simp
  next
    case True
    with Cons.prems obtain st' mid rest' where
      r: "stagesLoop inSample factor dSafe (stage + 1) rest mid = Some (rest', delayIn')"
      and s: "sts' = st' # rest'"
      by (auto split: Option.bind_splits prod.splits)
    from Cons.IH [OF r] have
      len: "length rest' = length rest" and
      fr: "\<forall>i < length rest. dSafe \<le> stage + 1 + int i \<longrightarrow> rest' ! i = rest ! i"
      by simp_all
    show ?thesis
    proof (intro conjI allI impI)
      show "length sts' = length (st # rest)" using s len by simp
    next
      fix i assume i: "i < length (st # rest)" and d: "dSafe \<le> stage + int i"
      from True d obtain j where j: "i = Suc j" by (cases i) auto
      with i d fr have "rest' ! j = rest ! j" by simp
      with s j show "sts' ! i = (st # rest) ! i" by simp
    qed
  qed
qed

text \<open>
  C10. \<^verbatim>\<open>ProcessSample\<close> changes only the stages below the clamped density: every stage
  at or above it keeps its buffers and head cursors.
\<close>

theorem ProcessSample_frame:
  "ProcessSample dl inSample factor density = Some (out, dl') \<Longrightarrow>
     length dl' = length dl \<and>
     (\<forall>s. nat (densitySafe density) \<le> s \<and> s < length dl \<longrightarrow> dl' ! s = dl ! s)"
proof -
  assume "ProcessSample dl inSample factor density = Some (out, dl')"
  then obtain delayIn where
    "stagesLoop inSample factor (densitySafe density) 0 dl (seedDelayIn inSample)
       = Some (dl', delayIn)"
    by (auto simp add: ProcessSample_def split: Option.bind_splits prod.splits)
  from stagesLoop_frame [OF this] show ?thesis by auto
qed

theorem ProcessSample_frame_witness:
  "map_option
     (\<lambda>(out, dl'). length dl' = 8 \<and>
        dl' ! 3 = prepareToPlay_difuser (\<lambda>_ _ _. 0) 1000 ! 3 \<and>
        dl' ! 7 = prepareToPlay_difuser (\<lambda>_ _ _. 0) 1000 ! 7)
     (ProcessSample (prepareToPlay_difuser (\<lambda>_ _ _. 0) 1000) 1 0 3) = Some True"
proof -
  have l: "length (prepareToPlay_difuser (\<lambda>_ _ _. 0) 1000) = 8"
    by code_simp
  have d: "nat (densitySafe 3) = 3"
    by code_simp
  have "ProcessSample (prepareToPlay_difuser (\<lambda>_ _ _. 0) 1000) 1 0 3 \<noteq> None"
    by code_simp
  then obtain out dl' where
    p: "ProcessSample (prepareToPlay_difuser (\<lambda>_ _ _. 0) 1000) 1 0 3 = Some (out, dl')"
    by auto
  from ProcessSample_frame [OF p] l d show ?thesis
    by (simp add: p)
qed

section \<open>The circular buffer: read positions\<close>

lemma static_cast_int_of_int: "static_cast_int (real_of_int k) = k"
  by (simp add: static_cast_int_def)

text \<open>
  The capacity of line \<open>0\<close> of stage \<open>0\<close> that \<^verbatim>\<open>prepareToPlay\<close> allocates at the sample
  rates 22050 and 44100.
\<close>

lemma Init_size_22050: "m_size (DelayLineDifuser_Init mem 5 22050 ! 0 ! 0) = 47"
  by (simp add: DelayLineDifuser_Init_def N_STAGES_def N_DELAY_LINES_def default_factors_def
      CircularBuffer_Init_def static_cast_int_def Let_def)

lemma Init_size_44100: "m_size (DelayLineDifuser_Init mem 5 44100 ! 0 ! 0) = 94"
  by (simp add: DelayLineDifuser_Init_def N_STAGES_def N_DELAY_LINES_def default_factors_def
      CircularBuffer_Init_def static_cast_int_def Let_def)

text \<open>
  C4. The claim: for every size from \<open>1\<close>, every head in \<open>[0, size)\<close> and every factor in
  \<open>[0, 1]\<close> the read of \<^verbatim>\<open>ReadFactor\<close> has both indices in \<open>[0, size)\<close> and its weight in
  \<open>[0, 1]\<close>. The delay \<open>2 + size * factor * 0.98\<close> exceeds \<open>head + size\<close> whenever
  \<open>size * (1 - 0.98 * factor) < 2 - head\<close>; \<^verbatim>\<open>ReadDelay\<close> wraps only read positions from
  \<open>size\<close> upwards and has no branch for a negative one.
  With size \<open>47\<close> (lemma \<open>Init_size_22050\<close>), after \<open>47\<close> writes the head is back at \<open>0\<close>,
  and at factor \<open>1\<close> the read position is \<open>-1.06\<close>: \<^verbatim>\<open>iPrev\<close> is \<open>-1\<close>, the weight is
  \<open>-0.06\<close>, and the read is out of the buffer. With size \<open>94\<close> (lemma \<open>Init_size_44100\<close>)
  the read position is \<open>-0.12\<close>: the indices are \<open>0\<close> and \<open>1\<close> and the weight is \<open>-0.12\<close>.
\<close>

theorem ReadFactor_negative_read_position:
  "map_option
     (\<lambda>cb. (m_head cb, iPrev cb (factorDelay cb 1), iNext cb (factorDelay cb 1),
            weight cb (factorDelay cb 1), ReadFactor cb 1))
     (writeSamples (CircularBuffer_Clear (CircularBuffer_Init (\<lambda>_. 0) 47)) (replicate 47 0))
     = Some (0, - 1, 0, - 3 / 50, None) \<and>
   map_option
     (\<lambda>cb. (m_head cb, iPrev cb (factorDelay cb 1), iNext cb (factorDelay cb 1),
            weight cb (factorDelay cb 1)))
     (writeSamples (CircularBuffer_Clear (CircularBuffer_Init (\<lambda>_. 0) 94)) (replicate 94 0))
     = Some (0, 0, 1, - 3 / 25)"
  by code_simp

text \<open>Writing \<open>xs\<close> from position \<open>k\<close> on, without passing the end of the buffer.\<close>

lemma writeSamples_fill:
  "length buf = N \<Longrightarrow> k < N \<Longrightarrow> k + length xs \<le> N \<Longrightarrow>
   writeSamples \<lparr>m_buffer = buf, m_head = int k, m_size = int N\<rparr> xs
     = Some \<lparr>m_buffer = take k buf @ xs @ drop (k + length xs) buf,
             m_head = int ((k + length xs) mod N), m_size = int N\<rparr>"
proof (induction xs arbitrary: buf k)
  case Nil
  then show ?case by simp
next
  case (Cons x xs)
  show ?case
  proof (cases "Suc k < N")
    case True
    have w: "WriteSample \<lparr>m_buffer = buf, m_head = int k, m_size = int N\<rparr> x
             = Some \<lparr>m_buffer = buf[k := x], m_head = int (Suc k), m_size = int N\<rparr>"
      using True Cons.prems by (simp add: WriteSample_def)
    have "writeSamples \<lparr>m_buffer = buf[k := x], m_head = int (Suc k), m_size = int N\<rparr> xs
          = Some \<lparr>m_buffer = take (Suc k) (buf[k := x]) @ xs
                      @ drop (Suc k + length xs) (buf[k := x]),
                  m_head = int ((Suc k + length xs) mod N), m_size = int N\<rparr>"
      using True Cons.prems by (intro Cons.IH) simp_all
    moreover have "take (Suc k) (buf[k := x]) = take k buf @ [x]"
      using Cons.prems by (simp add: take_Suc_conv_app_nth)
    ultimately show ?thesis using w by simp
  next
    case False
    with Cons.prems have kN: "Suc k = N" by simp
    from False Cons.prems have xs: "xs = []" by (cases xs) auto
    have w: "WriteSample \<lparr>m_buffer = buf, m_head = int k, m_size = int N\<rparr> x
             = Some \<lparr>m_buffer = buf[k := x], m_head = 0, m_size = int N\<rparr>"
      using kN Cons.prems by (auto simp add: WriteSample_def)
    have "buf[k := x] = take k buf @ [x] @ drop (Suc k) buf"
      using Cons.prems by (simp add: upd_conv_take_nth_drop)
    then show ?thesis using w xs kN by simp
  qed
qed

lemma writeSamples_full:
  assumes "0 < N" "length xs = nat N"
  shows "writeSamples (CircularBuffer_Clear (CircularBuffer_Init mem N)) xs
           = Some \<lparr>m_buffer = xs, m_head = 0, m_size = N\<rparr>"
proof -
  have c: "CircularBuffer_Clear (CircularBuffer_Init mem N)
           = \<lparr>m_buffer = replicate (nat N) 0, m_head = int 0, m_size = int (nat N)\<rparr>"
    using assms by (simp add: CircularBuffer_Clear_def CircularBuffer_Init_def)
  show ?thesis unfolding c
    using assms by (subst writeSamples_fill) simp_all
qed

lemma convex_between:
  fixes p n w :: real
  assumes "0 \<le> w" "w \<le> 1"
  shows "min p n \<le> p * (1 - w) + n * w \<and> p * (1 - w) + n * w \<le> max p n"
proof -
  have e: "p * (1 - w) + n * w = p + w * (n - p)"
    by (simp add: algebra_simps)
  show ?thesis
  proof (cases "p \<le> n")
    case True
    from mult_left_le_one_le [of "n - p" w] mult_nonneg_nonneg [of w "n - p"] True assms
    have "0 \<le> w * (n - p)" "w * (n - p) \<le> n - p" by simp_all
    with True show ?thesis unfolding e by (simp add: min_def max_def)
  next
    case False
    from mult_left_le_one_le [of "p - n" w] mult_nonneg_nonneg [of w "p - n"] False assms
    have "0 \<le> w * (p - n)" "w * (p - n) \<le> p - n" by simp_all
    then have "w * (n - p) \<le> 0" "p + w * (n - p) \<ge> n" by (simp_all add: algebra_simps)
    with False show ?thesis unfolding e by (simp add: min_def max_def)
  qed
qed

section \<open>Silence in, silence out\<close>

subsection \<open>Running a concrete difuser\<close>

lemma Clear_Init: "CircularBuffer_Clear (CircularBuffer_Init mem n) = cleared n"
  by (simp add: CircularBuffer_Clear_def CircularBuffer_Init_def cleared_def)

lemma prep1000:
  "prepareToPlay_difuser mem 1000 =
    [[cleared 3, cleared 7, cleared 30, cleared 49],
     [cleared 5, cleared 14, cleared 65, cleared 106],
     [cleared 8, cleared 21, cleared 99, cleared 162],
     [cleared 10, cleared 28, cleared 133, cleared 218],
     [cleared 12, cleared 35, cleared 167, cleared 274],
     [cleared 15, cleared 42, cleared 202, cleared 330],
     [cleared 17, cleared 49, cleared 236, cleared 386],
     [cleared 20, cleared 56, cleared 270, cleared 442]]"
proof -
  have u: "[0..<8] = [0, 1, 2, 3, 4, 5, 6, 7]" "[0..<4] = [0, 1, 2, 3]"
    by (simp_all add: upt_rec)
  show ?thesis
    by (simp add: prepareToPlay_difuser_def DelayLineDifuser_Clear_def DelayLineDifuser_Init_def
        N_STAGES_def N_DELAY_LINES_def default_factors_def Let_def static_cast_int_def
        Clear_Init u)
qed

lemmas exec_simps =
  ProcessSample_def WriteSample_def ReadFactor_def ReadDelay_def getSample_def
  iPrev_def iNext_def flr_def readIdx_def weight_def factorDelay_def static_cast_int_def
  nextDelayIn_def dryMix_def int_div_def outputScale_def densitySafe_def N_STAGES_def
  seedDelayIn_def Let_def cleared_def nth_list_update


subsection \<open>The envelope along a block\<close>

lemma process_fields:
  "m_AttackCoef (snd (process ef w)) = m_AttackCoef ef \<and>
   m_ReleaseCoef (snd (process ef w)) = m_ReleaseCoef ef \<and>
   m_Envelope (snd (process ef w)) = fst (process ef w)"
  by (simp add: process_def Let_def)

lemma process_lower:
  assumes "0 \<le> m_Envelope ef" "0 \<le> m_AttackCoef ef" "m_AttackCoef ef \<le> 1"
    "0 \<le> m_ReleaseCoef ef" "m_ReleaseCoef ef \<le> 1"
  shows "\<bar>w\<bar> * (1 - m_AttackCoef ef) \<le> fst (process ef w)"
proof (cases "\<bar>w\<bar> > m_Envelope ef")
  case True
  have "0 \<le> m_AttackCoef ef * m_Envelope ef" using assms by simp
  then show ?thesis using True by (simp add: process_def Let_def algebra_simps)
next
  case False
  then have "0 \<le> m_ReleaseCoef ef * (m_Envelope ef - \<bar>w\<bar>)" using assms by simp
  moreover have "0 \<le> m_AttackCoef ef * \<bar>w\<bar>" using assms by simp
  ultimately show ?thesis using False by (simp add: process_def Let_def algebra_simps)
qed

lemma process_nonneg:
  assumes "0 \<le> m_Envelope ef" "0 \<le> m_AttackCoef ef" "m_AttackCoef ef \<le> 1"
    "0 \<le> m_ReleaseCoef ef" "m_ReleaseCoef ef \<le> 1"
  shows "0 \<le> fst (process ef w)"
proof -
  have "0 \<le> \<bar>w\<bar> * (1 - m_AttackCoef ef)" using assms by simp
  with process_lower [OF assms, of w] show ?thesis by linarith
qed

lemma processChannel_runs:
  "ProcessSamples dl factor density xs = Some (ws, dl') \<Longrightarrow>
   0 \<le> m_Envelope ef \<Longrightarrow> 0 \<le> m_AttackCoef ef \<Longrightarrow> m_AttackCoef ef \<le> 1 \<Longrightarrow>
   0 \<le> m_ReleaseCoef ef \<Longrightarrow> m_ReleaseCoef ef \<le> 1 \<Longrightarrow>
   \<exists>outs ef'. processChannel g2d factor density mix volume thresholddB dl ef xs
        = Some (outs, dl', ef') \<and>
      length outs = length xs \<and> m_AttackCoef ef' = m_AttackCoef ef \<and>
      m_ReleaseCoef ef' = m_ReleaseCoef ef \<and> 0 \<le> m_Envelope ef'"
proof (induction xs arbitrary: dl ef ws)
  case Nil
  then show ?case by simp
next
  case (Cons x xs)
  from Cons.prems(1) obtain w dl1 ws1 where
    p: "ProcessSample dl x factor density = Some (w, dl1)"
    and r: "ProcessSamples dl1 factor density xs = Some (ws1, dl')"
    by (auto split: Option.bind_splits prod.splits)
  let ?ef1 = "snd (process ef w)"
  have e: "0 \<le> m_Envelope ?ef1" "0 \<le> m_AttackCoef ?ef1" "m_AttackCoef ?ef1 \<le> 1"
    "0 \<le> m_ReleaseCoef ?ef1" "m_ReleaseCoef ?ef1 \<le> 1"
    using process_fields [of ef w] process_nonneg [of ef w] Cons.prems by simp_all
  from Cons.IH [OF r e] obtain outs ef' where
    "processChannel g2d factor density mix volume thresholddB dl1 ?ef1 xs = Some (outs, dl', ef')"
    "length outs = length xs" "m_AttackCoef ef' = m_AttackCoef ?ef1"
    "m_ReleaseCoef ef' = m_ReleaseCoef ?ef1" "0 \<le> m_Envelope ef'" by blast
  then show ?case using p process_fields [of ef w]
    by (simp add: Let_def case_prod_unfold)
qed

lemma processChannel_append:
  "processChannel g2d factor density mix volume thresholddB dl ef (xs @ ys) =
     do {
       (o1, dl1, ef1) \<leftarrow> processChannel g2d factor density mix volume thresholddB dl ef xs;
       (o2, dl2, ef2) \<leftarrow> processChannel g2d factor density mix volume thresholddB dl1 ef1 ys;
       Some (o1 @ o2, dl2, ef2)
     }"
proof (induction xs arbitrary: dl ef)
  case Nil
  then show ?case by (simp add: case_prod_unfold)
next
  case (Cons x xs)
  then show ?case
    by (simp add: Let_def case_prod_unfold del: processChannel.simps(1) split: Option.bind_split)
qed

lemma log10_thousandth: "log 10 (1 / 1000) = - 3"
proof -
  have "(1 / 1000 :: real) = 10 powr (- 3)" by (simp add: powr_minus_divide)
  then show ?thesis by (simp only: log_powr_cancel) 
qed

lemma gainToDecibels_above:
  assumes "1 / 1000 < e"
  shows "- 60 < gainToDecibels e"
proof -
  have "log 10 (1 / 1000) < log 10 e" using assms by (subst log_less_cancel_iff) simp_all
  then have "- 60 < log 10 e * 20" by (simp add: log10_thousandth)
  then show ?thesis using assms by (simp add: gainToDecibels_def)
qed

lemma last_sample_audible:
  assumes p: "ProcessSample dl 0 factor density = Some (w, dl')"
    and e: "0 \<le> m_Envelope ef" "0 \<le> m_AttackCoef ef" "m_AttackCoef ef \<le> 10 / 11"
      "0 \<le> m_ReleaseCoef ef" "m_ReleaseCoef ef \<le> 1"
    and w: "11 / 1000 < \<bar>w\<bar>" and m: "mix \<noteq> 0" "volume \<noteq> 0"
  shows "\<exists>out ef'. processChannel gainToDecibels factor density mix volume (- 60) dl ef [0]
           = Some ([out], dl', ef') \<and> out \<noteq> 0"
proof -
  have "11 / 1000 * (1 / 11) < \<bar>w\<bar> * (1 - m_AttackCoef ef)"
    using w e by (intro mult_less_le_imp_less) simp_all
  moreover have "\<bar>w\<bar> * (1 - m_AttackCoef ef) \<le> fst (process ef w)"
    using e by (intro process_lower) simp_all
  ultimately have "1 / 1000 < fst (process ef w)" by simp
  from gainToDecibels_above [OF this]
  have d: "0 < dynamicMix (gainToDecibels (fst (process ef w))) (- 60)"
    by (simp add: dynamicMix_def)
  have "w \<noteq> 0" using w by auto
  with d m have "volume * (mix * (dynamicMix (gainToDecibels (fst (process ef w))) (- 60) * w)) \<noteq> 0"
    by simp
  then show ?thesis using p by (simp add: Let_def case_prod_unfold)
qed

lemma prepareToPlay_envelope_1000:
  "m_Envelope (prepareToPlay_envelope 1000) = 0 \<and>
   0 \<le> m_AttackCoef (prepareToPlay_envelope 1000) \<and>
   m_AttackCoef (prepareToPlay_envelope 1000) \<le> 10 / 11 \<and>
   0 \<le> m_ReleaseCoef (prepareToPlay_envelope 1000) \<and>
   m_ReleaseCoef (prepareToPlay_envelope 1000) \<le> 1"
proof -
  have "1 + 1 / 10 \<le> exp (1 / 10 :: real)" by (rule exp_ge_add_one_self)
  then have "inverse (exp (1 / 10 :: real)) \<le> inverse (11 / 10)"
    by (intro le_imp_inverse_le) simp_all
  then have "exp (- (1 / 10) :: real) \<le> 10 / 11" by (simp add: exp_minus)
  then show ?thesis
    by (simp add: prepareToPlay_envelope_def SetCoef_def EnvelopeFollower_Init_def
        EnvelopeFollower_new_def)
qed

lemma wet_run:
  "Option.bind
     (ProcessSamples (prepareToPlay_difuser mem 1000) (1 / 100) 5 [0, 0, 0, 0, 0, 0])
     (\<lambda>(ws, dl6). map_option fst (ProcessSample dl6 0 (1 / 100) 5))
   = Some (- (4167326303146939953 / 195312500000000000000))"
  unfolding prep1000
  by (simp add: exec_simps)


text \<open>
  C3, counterexample. The claim: after \<^verbatim>\<open>Clear()\<close>, an all-zero input block gives an
  all-zero output block for every parameter configuration. \<^verbatim>\<open>ProcessSample\<close> seeds the
  four lines of stage \<open>0\<close> with \<open>0.8 * in\<close>, \<open>1.2 * in\<close>, \<open>- in - 0.1\<close> and \<open>- in + 0.1\<close>:
  for a zero input, lines \<open>2\<close> and \<open>3\<close> receive \<open>-0.1\<close> and \<open>0.1\<close> at every sample. For a
  factor above zero the two lines have different delays, so the two seeds do not cancel
  in the next stage. After \<^verbatim>\<open>prepareToPlay\<close> at the sample rate \<open>1000\<close> (small
  buffers, so the seeds come out within a few samples; every read of this run has its
  position inside the buffer), with factor \<open>0.01\<close>, density \<open>5\<close>, mix \<open>0.5\<close>, volume gain
  \<open>1\<close> and threshold \<open>-60\<close> dB, the difuser returns about \<open>-0.0213\<close> at the seventh zero
  sample (lemma \<open>wet_run\<close>); the envelope is then above \<open>0.001\<close>, that is above
  \<open>-60\<close> dB, the dynamic mix is positive and the seventh output sample is not zero.
\<close>

theorem processChannel_silence_counterexample:
  "map_option (\<lambda>(outs, dl, ef). outs = [0, 0, 0, 0, 0, 0, 0])
     (processChannel gainToDecibels (1 / 100) 5 (1 / 2) 1 (- 60)
        (prepareToPlay_difuser (\<lambda>_ _ _. 0) 1000) (prepareToPlay_envelope 1000)
        [0, 0, 0, 0, 0, 0, 0]) = Some False"
proof -
  let ?dl = "prepareToPlay_difuser (\<lambda>_ _ _. 0) 1000"
  let ?w = "- (4167326303146939953 / 195312500000000000000) :: real"
  from wet_run [of "\<lambda>_ _ _. 0"] obtain ws dl6 dl7 where
    r: "ProcessSamples ?dl (1 / 100) 5 [0, 0, 0, 0, 0, 0] = Some (ws, dl6)"
    and p: "ProcessSample dl6 0 (1 / 100) 5 = Some (?w, dl7)"
    by (auto split: Option.bind_splits prod.splits)
  note e = prepareToPlay_envelope_1000
  from processChannel_runs [OF r, of "prepareToPlay_envelope 1000" gainToDecibels "1 / 2" 1 "- 60"] e
  obtain outs ef6 where
    a: "processChannel gainToDecibels (1 / 100) 5 (1 / 2) 1 (- 60) ?dl (prepareToPlay_envelope 1000)
          [0, 0, 0, 0, 0, 0] = Some (outs, dl6, ef6)"
    and f: "m_AttackCoef ef6 = m_AttackCoef (prepareToPlay_envelope 1000)"
       "m_ReleaseCoef ef6 = m_ReleaseCoef (prepareToPlay_envelope 1000)" "0 \<le> m_Envelope ef6"
    by auto
  have "\<exists>out ef'. processChannel gainToDecibels (1 / 100) 5 (1 / 2) 1 (- 60) dl6 ef6 [0]
           = Some ([out], dl7, ef') \<and> out \<noteq> 0"
    using f e by (intro last_sample_audible [OF p]) simp_all
  then obtain out ef7 where
    b: "processChannel gainToDecibels (1 / 100) 5 (1 / 2) 1 (- 60) dl6 ef6 [0] = Some ([out], dl7, ef7)"
    and nz: "out \<noteq> 0" by blast
  have "processChannel gainToDecibels (1 / 100) 5 (1 / 2) 1 (- 60) ?dl (prepareToPlay_envelope 1000)
          ([0, 0, 0, 0, 0, 0] @ [0]) = Some (outs @ [out], dl7, ef7)"
    unfolding processChannel_append a by (simp add: b del: processChannel.simps)
  moreover have "outs @ [out] \<noteq> [0, 0, 0, 0, 0, 0, 0]"
    using nz by (metis last_snoc last.simps list.distinct(1))
  ultimately show ?thesis by simp
qed

subsection \<open>At factor zero the seeds cancel\<close>

lemma line_write_read:
  assumes "lineReady cb"
  shows "\<exists>cb'. WriteSample cb x = Some cb' \<and> ReadFactor cb' 0 = Some (lastWritten cb) \<and>
           lineReady cb' \<and> lastWritten cb' = x"
proof -
  let ?h = "m_head cb" and ?n = "m_size cb"
  let ?h' = "if ?h + 1 \<ge> ?n then 0 else ?h + 1"
  let ?cb' = "cb\<lparr>m_buffer := (m_buffer cb)[nat ?h := x], m_head := ?h'\<rparr>"
  from assms have n: "2 \<le> ?n" and len: "length (m_buffer cb) = nat ?n"
    and h: "0 \<le> ?h" "?h < ?n" by (simp_all add: lineReady_def)
  have w: "WriteSample cb x = Some ?cb'" using h len by (simp add: WriteSample_def)
  have ready: "lineReady ?cb'" using n len h by (simp add: lineReady_def)
  have last: "lastWritten ?cb' = x"
  proof (cases "?h + 1 \<ge> ?n")
    case True
    with h have "?n - 1 = ?h" by simp
    with True h len show ?thesis by (simp add: lastWritten_def)
  next
    case False
    with h len show ?thesis by (simp add: lastWritten_def)
  qed
  have r: "readIdx ?cb' (factorDelay ?cb' 0) = real_of_int (?h' + ?n - 2)"
    by (simp add: readIdx_def factorDelay_def)
  have f: "flr ?cb' (factorDelay ?cb' 0) = ?h' + ?n - 2"
    unfolding flr_def r by (simp add: static_cast_int_def)
  have wt: "weight ?cb' (factorDelay ?cb' 0) = 0"
    unfolding weight_def f r by simp
  have ip: "iPrev ?cb' (factorDelay ?cb' 0) = (if ?h = 0 then ?n - 1 else ?h - 1)"
    unfolding iPrev_def f using n h by auto
  have ipne: "(if ?h = 0 then ?n - 1 else ?h - 1) \<noteq> ?h" using n by auto
  have gp: "getSample ?cb' (if ?h = 0 then ?n - 1 else ?h - 1) = Some (lastWritten cb)"
    using n h len ipne by (auto simp add: getSample_def lastWritten_def)
  have inx: "0 \<le> iNext ?cb' (factorDelay ?cb' 0) \<and> iNext ?cb' (factorDelay ?cb' 0) < ?n"
    unfolding iNext_def f Let_def using n h by auto
  obtain v where gn: "getSample ?cb' (iNext ?cb' (factorDelay ?cb' 0)) = Some v"
    using inx len by (simp add: getSample_def)
  have "ReadFactor ?cb' 0 = Some (lastWritten cb)"
    unfolding ReadFactor_def ReadDelay_def by (simp add: ip gp gn wt)
  with w ready last show ?thesis by blast
qed

lemma linesLoop_ready:
  "list_all lineReady st \<Longrightarrow> length xs = length st \<Longrightarrow>
   \<exists>st'. linesLoop 0 st xs = Some (st', map lastWritten st) \<and>
         list_all lineReady st' \<and> map lastWritten st' = xs"
proof (induction st arbitrary: xs)
  case Nil
  then show ?case by simp
next
  case (Cons b bs)
  then obtain x xs' where xs: "xs = x # xs'" by (cases xs) auto
  from Cons.prems have "lineReady b" by simp
  from line_write_read [OF this, of x] obtain b' where
    b: "WriteSample b x = Some b'" "ReadFactor b' 0 = Some (lastWritten b)"
       "lineReady b'" "lastWritten b' = x" by blast
  from Cons.prems xs have "list_all lineReady bs" "length xs' = length bs" by simp_all
  from Cons.IH [OF this] obtain bs' where
    r: "linesLoop 0 bs xs' = Some (bs', map lastWritten bs)"
       "list_all lineReady bs'" "map lastWritten bs' = xs'" by blast
  show ?case using xs b r by simp
qed

lemma nextDelayIn_balanced:
  assumes "balanced v"
  shows "\<exists>v'. nextDelayIn dry 0 v = Some v' \<and> balanced v'"
proof -
  from assms obtain a b c where v: "v = [0, a, b, c]" and s: "a + b + c = 0"
    by (auto simp add: balanced_def)
  show ?thesis using s unfolding v by (simp add: nextDelayIn_def balanced_def) 
qed

lemma stagesLoop_ready:
  "list_all stageReady sts \<Longrightarrow> balanced delayIn \<Longrightarrow> dSafe - stage \<le> int (length sts) \<Longrightarrow>
   \<exists>sts' delayIn'. stagesLoop 0 0 dSafe stage sts delayIn = Some (sts', delayIn') \<and>
      list_all stageReady sts' \<and> balanced delayIn' \<and> length sts' = length sts"
proof (induction sts arbitrary: stage delayIn)
  case Nil
  then show ?case by simp
next
  case (Cons st rest)
  show ?case
  proof (cases "stage < dSafe")
    case False
    with Cons.prems show ?thesis by simp
  next
    case True
    from Cons.prems have st: "list_all lineReady st" "balanced (map lastWritten st)"
      by (simp_all add: stageReady_def)
    from Cons.prems(2) st(2) have "length delayIn = length st"
      by (auto simp add: balanced_def dest: arg_cong [where f = length])
    from linesLoop_ready [OF st(1) this] obtain st' where
      l: "linesLoop 0 st delayIn = Some (st', map lastWritten st)"
         "list_all lineReady st'" "map lastWritten st' = delayIn" by blast
    from nextDelayIn_balanced [OF st(2)] obtain mid where
      m: "nextDelayIn (dryMix stage dSafe) 0 (map lastWritten st) = Some mid" "balanced mid"
      by blast
    from Cons.prems have "list_all stageReady rest" "dSafe - (stage + 1) \<le> int (length rest)"
      by simp_all
    from Cons.IH [OF this(1) m(2) this(2)] obtain rest' delayIn' where
      r: "stagesLoop 0 0 dSafe (stage + 1) rest mid = Some (rest', delayIn')"
         "list_all stageReady rest'" "balanced delayIn'" "length rest' = length rest" by blast
    have "stageReady st'" using l Cons.prems(2) by (simp add: stageReady_def)
    then show ?thesis using True l m r by simp
  qed
qed

lemma densitySafe_le_8: "densitySafe density \<le> 8"
  by (simp add: densitySafe_def N_STAGES_def Let_def)

lemma ProcessSample_silent:
  assumes "list_all stageReady dl" "8 \<le> length dl"
  shows "\<exists>dl'. ProcessSample dl 0 0 density = Some (0, dl') \<and>
           list_all stageReady dl' \<and> length dl' = length dl"
proof -
  have s: "balanced (seedDelayIn 0)"
    unfolding balanced_def
    by (rule exI [of _ 0], rule exI [of _ "- 1 / 10"], rule exI [of _ "1 / 10"])
       (simp add: seedDelayIn_def)
  have "densitySafe density - 0 \<le> int (length dl)"
    using assms(2) densitySafe_le_8 [of density] by linarith
  from stagesLoop_ready [OF assms(1) s this] obtain dl' delayIn where
    r: "stagesLoop 0 0 (densitySafe density) 0 dl (seedDelayIn 0) = Some (dl', delayIn)"
       "list_all stageReady dl'" "balanced delayIn" "length dl' = length dl" by blast
  from r(3) have "delayIn ! 0 + delayIn ! 1 + delayIn ! 2 + delayIn ! 3 = 0"
    by (auto simp add: balanced_def)
  then show ?thesis using r by (simp add: ProcessSample_def)
qed

lemma processChannel_silent:
  "list_all stageReady dl \<Longrightarrow> 8 \<le> length dl \<Longrightarrow>
   \<exists>dl' ef'. processChannel g2d 0 density mix volume thresholddB dl ef (replicate n 0)
      = Some (replicate n 0, dl', ef')"
proof (induction n arbitrary: dl ef)
  case 0
  then show ?case by simp
next
  case (Suc n)
  from ProcessSample_silent [OF Suc.prems, of density] obtain dl1 where
    p: "ProcessSample dl 0 0 density = Some (0, dl1)" "list_all stageReady dl1"
       "length dl1 = length dl" by blast
  from Suc.prems p have "8 \<le> length dl1" by simp
  from Suc.IH [OF p(2) this, of "snd (process ef 0)"] obtain dl' ef' where
    "processChannel g2d 0 density mix volume thresholddB dl1 (snd (process ef 0)) (replicate n 0)
      = Some (replicate n 0, dl', ef')" by blast
  then show ?case using p(1) by (simp add: Let_def case_prod_unfold)
qed

lemma Clear_ready:
  assumes "\<forall>st\<in>set dl0. length st = 4 \<and>
             (\<forall>cb\<in>set st. 2 \<le> m_size cb \<and> length (m_buffer cb) = nat (m_size cb))"
  shows "list_all stageReady (DelayLineDifuser_Clear dl0)"
proof -
  have line: "\<And>cb. 2 \<le> m_size cb \<Longrightarrow> length (m_buffer cb) = nat (m_size cb) \<Longrightarrow>
     lineReady (CircularBuffer_Clear cb) \<and> lastWritten (CircularBuffer_Clear cb) = 0"
    by (simp add: lineReady_def lastWritten_def CircularBuffer_Clear_def)
  have "\<And>st. st \<in> set dl0 \<Longrightarrow> stageReady (map CircularBuffer_Clear st)"
  proof -
    fix st assume "st \<in> set dl0"
    with assms have l: "length st = 4"
      and c: "\<forall>cb\<in>set st. 2 \<le> m_size cb \<and> length (m_buffer cb) = nat (m_size cb)" by auto
    from c line have a: "list_all lineReady (map CircularBuffer_Clear st)"
      by (simp add: list_all_iff)
    from c line have "map lastWritten (map CircularBuffer_Clear st) = replicate (length st) 0"
      by (auto simp add: map_replicate_const [symmetric] simp del: map_replicate_const)
    then have "balanced (map lastWritten (map CircularBuffer_Clear st))"
      using l by (simp add: balanced_def numeral_eq_Suc)
    with a show "stageReady (map CircularBuffer_Clear st)" by (simp add: stageReady_def)
  qed
  then show ?thesis by (simp add: DelayLineDifuser_Clear_def list_all_iff)
qed

lemma default_factors_ge: "delayLine < 4 \<Longrightarrow> 49 / 100 \<le> default_factors ! delayLine"
  by (auto simp add: default_factors_def less_Suc_eq numeral_eq_Suc)

lemma Init_ready:
  assumes "1000 \<le> sampleRate"
  shows "length (DelayLineDifuser_Init mem 5 sampleRate) = 8 \<and>
         (\<forall>st\<in>set (DelayLineDifuser_Init mem 5 sampleRate). length st = 4 \<and>
            (\<forall>cb\<in>set st. 2 \<le> m_size cb \<and> length (m_buffer cb) = nat (m_size cb)))"
proof -
  have sz: "2 \<le> 1 + static_cast_int (5 * real_of_int sampleRate * 0.001 * (default_factors ! delayLine * (0.87 + real stage)))"
    if "delayLine < 4" for delayLine stage
  proof -
    have a: "5 \<le> 5 * real_of_int sampleRate * 0.001" using assms by simp
    have "49 / 100 * (87 / 100) \<le> default_factors ! delayLine * (0.87 + real stage)"
      using default_factors_ge [OF that] by (intro mult_mono) simp_all
    then have b: "1 / 5 \<le> default_factors ! delayLine * (0.87 + real stage)" by simp
    have "5 * (1 / 5) \<le> 5 * real_of_int sampleRate * 0.001 * (default_factors ! delayLine * (0.87 + real stage))"
      using a b by (intro mult_mono) simp_all
    then have "1 \<le>  5 * real_of_int sampleRate * 0.001 * (default_factors ! delayLine * (0.87 + real stage))" by simp
    then show ?thesis by (simp add: static_cast_int_def le_floor_iff)
  qed
  show ?thesis using sz
    by (auto simp add: DelayLineDifuser_Init_def N_STAGES_def N_DELAY_LINES_def Let_def CircularBuffer_Init_def)
qed

text \<open>
  C3, amended. At factor \<open>0\<close> every line is read at the delay \<open>2\<close>, which returns the
  sample written by the previous call. On a difuser of eight stages of four lines, each
  of capacity at least \<open>2\<close> (lemma \<open>Init_ready\<close>: as \<^verbatim>\<open>prepareToPlay\<close> allocates at every
  sample rate from \<open>1000\<close>), after \<^verbatim>\<open>Clear()\<close> an all-zero input block of any length
  gives an all-zero output block, for every density, mix, volume, threshold, decibel
  conversion and envelope state.
\<close>

theorem processChannel_silence_factor_0:
  assumes "length dl0 = 8"
    and "\<forall>st\<in>set dl0. length st = 4 \<and>
           (\<forall>cb\<in>set st. 2 \<le> m_size cb \<and> length (m_buffer cb) = nat (m_size cb))"
  shows "\<exists>dl' ef'. processChannel g2d 0 density mix volume thresholddB
            (DelayLineDifuser_Clear dl0) ef (replicate n 0) = Some (replicate n 0, dl', ef')"
proof -
  have "8 \<le> length (DelayLineDifuser_Clear dl0)" using assms(1) by (simp add: DelayLineDifuser_Clear_def)
  from processChannel_silent [OF Clear_ready [OF assms(2)] this] show ?thesis .
qed

theorem processChannel_silence_factor_0_witness:
  "map_option fst
     (processChannel gainToDecibels 0 4 (1 / 2) 1 (- 30)
        (prepareToPlay_difuser (\<lambda>_ _ _. 0) 44100) (prepareToPlay_envelope 44100)
        (replicate 512 0)) = Some (replicate 512 0)"
proof -
  have r: "length (DelayLineDifuser_Init (\<lambda>_ _ _. 0) 5 44100) = 8"
    "\<forall>st\<in>set (DelayLineDifuser_Init (\<lambda>_ _ _. 0) 5 44100). length st = 4 \<and>
       (\<forall>cb\<in>set st. 2 \<le> m_size cb \<and> length (m_buffer cb) = nat (m_size cb))"
    using Init_ready [of 44100 "\<lambda>_ _ _. 0"] by simp_all
  from processChannel_silence_factor_0 [OF r, of gainToDecibels 4 "1 / 2" 1 "- 30"
         "prepareToPlay_envelope 44100" 512]
  show ?thesis
    by (auto simp add: prepareToPlay_difuser_def)
qed

section \<open>Binary32 rounding: monotone, idempotent, exact on short numbers\<close>

lemma two_powi_le: "a \<le> b \<Longrightarrow> (2::real) powi a \<le> 2 powi b"
  by (rule power_int_increasing) simp_all

lemma two_powi_less: "a < b \<Longrightarrow> (2::real) powi a < 2 powi b"
  by (rule power_int_strict_increasing) simp_all

lemma two_powi_less_D: "(2::real) powi a < 2 powi b \<Longrightarrow> a < b"
  using two_powi_le [of b a] by (cases "a < b") simp_all

lemma two_powi_le_D: "(2::real) powi a \<le> 2 powi b \<Longrightarrow> a \<le> b"
  using two_powi_less [of b a] by (cases "a \<le> b") simp_all

lemma two_powi_diff: "(2::real) powi (a - b) = 2 powi a / 2 powi b"
  by (rule power_int_diff) simp

lemma two_powi_add: "(2::real) powi (a + b) = 2 powi a * 2 powi b"
  by (rule power_int_add) simp

lemma round_even_of_int: "round_even (of_int k) = k"
  by (simp add: round_even_def)

lemma round_even_range: "\<lfloor>y\<rfloor> \<le> round_even y \<and> round_even y \<le> \<lfloor>y\<rfloor> + 1"
  by (simp add: round_even_def Let_def)

lemma round_even_err: "\<bar>of_int (round_even y) - y\<bar> \<le> 1 / 2"
proof -
  have "of_int \<lfloor>y\<rfloor> \<le> y" "y < of_int \<lfloor>y\<rfloor> + 1" by linarith+
  then show ?thesis by (auto simp add: round_even_def Let_def)
qed

lemma round_even_mono: "y \<le> z \<Longrightarrow> round_even y \<le> round_even z"
proof -
  assume yz: "y \<le> z"
  then have fl: "\<lfloor>y\<rfloor> \<le> \<lfloor>z\<rfloor>" by (rule floor_mono)
  show ?thesis
  proof (cases "\<lfloor>y\<rfloor> = \<lfloor>z\<rfloor>")
    case True
    with yz show ?thesis by (auto simp add: round_even_def Let_def)
  next
    case False
    with fl have "\<lfloor>y\<rfloor> + 1 \<le> \<lfloor>z\<rfloor>" by simp
    with round_even_range [of y] round_even_range [of z] show ?thesis by linarith
  qed
qed

lemma round_even_minus: "round_even (- y) = - round_even y"
proof (cases "y \<in> \<int>")
  case True
  then obtain k where "y = of_int k" by (auto elim: Ints_cases)
  then have "- y = of_int (- k)" by simp
  with \<open>y = of_int k\<close> show ?thesis by (simp only: round_even_of_int)
next
  case False
  then have "y \<noteq> of_int \<lfloor>y\<rfloor>" by (metis Ints_of_int)
  then have f: "\<lfloor>- y\<rfloor> = - \<lfloor>y\<rfloor> - 1"
    by (simp add: floor_minus ceiling_altdef)
  have "of_int \<lfloor>y\<rfloor> \<le> y" "y < of_int \<lfloor>y\<rfloor> + 1" by linarith+
  then show ?thesis
    unfolding round_even_def Let_def f by (auto simp add: algebra_simps)
qed


lemma expo_scan_le: "expo_scan n e x \<le> e"
proof (induction n arbitrary: e)
  case 0
  then show ?case by simp
next
  case (Suc n)
  from Suc [of "e - 1"] show ?case by auto
qed

lemma expo_scan_ge: "e - int n \<le> expo_scan n e x"
proof (induction n arbitrary: e)
  case 0
  then show ?case by simp
next
  case (Suc n)
  from Suc [of "e - 1"] show ?case by auto
qed

lemma expo_scan_lower: "e - int n < expo_scan n e x \<Longrightarrow> 2 powi (expo_scan n e x) \<le> x"
proof (induction n arbitrary: e)
  case 0
  then show ?case by simp
next
  case (Suc n)
  from Suc.prems Suc.IH [of "e - 1"] show ?case by (auto split: if_splits)
qed

lemma expo_scan_upper: "expo_scan n e x < e \<Longrightarrow> x < 2 powi (expo_scan n e x + 1)"
proof (induction n arbitrary: e)
  case 0
  then show ?case by simp
next
  case (Suc n)
  show ?case
  proof (cases "2 powi e \<le> x")
    case True
    with Suc.prems show ?thesis by simp
  next
    case False
    show ?thesis
    proof (cases "expo_scan n (e - 1) x < e - 1")
      case True
      from Suc.IH [OF this] \<open>\<not> 2 powi e \<le> x\<close> show ?thesis by simp
    next
      case F: False
      with expo_scan_le [of n "e - 1" x] have "expo_scan n (e - 1) x = e - 1" by simp
      with False show ?thesis by simp
    qed
  qed
qed

lemma f32_exponent_range: "- 126 \<le> f32_exponent x \<and> f32_exponent x \<le> 127"
  using expo_scan_le [of 253 127 "\<bar>x\<bar>"] expo_scan_ge [of 127 253 "\<bar>x\<bar>"]
  by (simp add: f32_exponent_def)

lemma f32_exponent_lower: "- 126 < f32_exponent x \<Longrightarrow> 2 powi (f32_exponent x) \<le> \<bar>x\<bar>"
  using expo_scan_lower [of 127 253 "\<bar>x\<bar>"] by (simp add: f32_exponent_def)

lemma f32_exponent_upper: "f32_exponent x < 127 \<Longrightarrow> \<bar>x\<bar> < 2 powi (f32_exponent x + 1)"
  using expo_scan_upper [of 253 127 "\<bar>x\<bar>"] by (simp add: f32_exponent_def)

lemma f32_exponent_unique:
  assumes "- 126 \<le> k" "k \<le> 127" "- 126 < k \<Longrightarrow> 2 powi k \<le> \<bar>x\<bar>"
    "k < 127 \<Longrightarrow> \<bar>x\<bar> < 2 powi (k + 1)"
  shows "f32_exponent x = k"
proof (rule antisym)
  show "f32_exponent x \<le> k"
  proof (rule ccontr)
    assume "\<not> f32_exponent x \<le> k"
    then have lt: "k < f32_exponent x" by simp
    with f32_exponent_range [of x] have "k < 127" "- 126 < f32_exponent x" using assms(1) by simp_all
    with assms(4) f32_exponent_lower [of x] have "2 powi f32_exponent x < (2::real) powi (k + 1)" by simp
    then have "f32_exponent x < k + 1" by (rule two_powi_less_D)
    with lt show False by simp
  qed
  show "k \<le> f32_exponent x"
  proof (rule ccontr)
    assume "\<not> k \<le> f32_exponent x"
    then have lt: "f32_exponent x < k" by simp
    with f32_exponent_range [of x] have "f32_exponent x < 127" "- 126 < k" using assms(2) by simp_all
    with assms(3) f32_exponent_upper [of x] have "2 powi k < (2::real) powi (f32_exponent x + 1)" by simp
    then have "k < f32_exponent x + 1" by (rule two_powi_less_D)
    with lt show False by simp
  qed
qed

lemma f32_exponent_minus: "f32_exponent (- x) = f32_exponent x"
  by (simp add: f32_exponent_def)

lemma f32_exponent_mono: "\<bar>x\<bar> \<le> \<bar>y\<bar> \<Longrightarrow> f32_exponent x \<le> f32_exponent y"
proof (rule ccontr)
  assume le: "\<bar>x\<bar> \<le> \<bar>y\<bar>" and "\<not> f32_exponent x \<le> f32_exponent y"
  then have lt: "f32_exponent y < f32_exponent x" by simp
  with f32_exponent_range [of x] f32_exponent_range [of y]
  have "f32_exponent y < 127" "- 126 < f32_exponent x" by simp_all
  with f32_exponent_upper [of y] f32_exponent_lower [of x] le
  have "2 powi f32_exponent x < (2::real) powi (f32_exponent y + 1)" by simp
  then have "f32_exponent x < f32_exponent y + 1" by (rule two_powi_less_D)
  with lt show False by simp
qed

lemma f32_ulp_pos: "0 < f32_ulp x"
  by (simp add: f32_ulp_def)

lemma f32_ulp_minus: "f32_ulp (- x) = f32_ulp x"
  by (simp add: f32_ulp_def f32_exponent_minus)

lemma f32_ulp_mono: "\<bar>x\<bar> \<le> \<bar>y\<bar> \<Longrightarrow> f32_ulp x \<le> f32_ulp y"
  using f32_exponent_mono [of x y] by (simp add: f32_ulp_def two_powi_le)

lemma f32_0: "f32 0 = 0"
  by (simp add: f32_def round_even_def)

lemma f32_minus: "f32 (- x) = - f32 x"
  by (simp add: f32_def f32_ulp_minus round_even_minus)

lemma f32_err: "\<bar>f32 x - x\<bar> \<le> f32_ulp x / 2"
proof -
  let ?u = "f32_ulp x"
  let ?R = "real_of_int (round_even (x / ?u))"
  have u: "0 < ?u" by (rule f32_ulp_pos)
  then have "f32 x - x = (?R - x / ?u) * ?u"
    by (simp add: f32_def left_diff_distrib)
  then have "\<bar>f32 x - x\<bar> = \<bar>?R - x / ?u\<bar> * ?u"
    using u by (simp add: abs_mult)
  also have "\<dots> \<le> 1 / 2 * ?u"
    using round_even_err [of "x / ?u"] u by (intro mult_right_mono) simp_all
  finally show ?thesis by simp
qed

lemma f32_ulp_rel: "f32_ulp x / 2 \<le> \<bar>x\<bar> / 2 ^ 24 + 1 / 2 ^ 150"
proof (cases "- 126 < f32_exponent x")
  case True
  have "f32_ulp x / 2 = 2 powi f32_exponent x / 2 ^ 24"
    by (simp add: f32_ulp_def two_powi_diff)
  also have "\<dots> \<le> \<bar>x\<bar> / 2 ^ 24"
    using f32_exponent_lower [OF True] by (intro divide_right_mono) simp_all
  finally show ?thesis by simp
next
  case False
  with f32_exponent_range [of x] have "f32_exponent x = - 126" by simp
  then have "f32_ulp x = 1 / 2 ^ 149" by (simp add: f32_ulp_def)
  then show ?thesis by simp
qed

lemma f32_err_rel: "\<bar>f32 x - x\<bar> \<le> \<bar>x\<bar> / 2 ^ 24 + 1 / 2 ^ 150"
  using f32_err [of x] f32_ulp_rel [of x] by linarith

lemma f32_fix: "x / f32_ulp x \<in> \<int> \<Longrightarrow> f32 x = x"
proof -
  assume "x / f32_ulp x \<in> \<int>"
  then obtain k where k: "x / f32_ulp x = of_int k" by (auto elim: Ints_cases)
  then show ?thesis using f32_ulp_pos [of x]
    by (simp add: f32_def round_even_of_int del: of_int_mult) (simp add: field_simps)
qed

lemma f32_at:
  assumes "- 126 \<le> k" "k \<le> 127" "- 126 < k \<Longrightarrow> 2 powi k \<le> \<bar>x\<bar>"
    "k < 127 \<Longrightarrow> \<bar>x\<bar> < 2 powi (k + 1)"
  shows "f32 x = of_int (round_even (x / 2 powi (k - 23))) * 2 powi (k - 23)"
  using f32_exponent_unique [OF assms] by (simp add: f32_def f32_ulp_def)

lemma ulp_times_2_24: "2 ^ 24 * (2::real) powi (e - 23) = 2 powi (e + 1)"
proof -
  have "e - 23 + 24 = e + 1" by simp
  with two_powi_add [of "e - 23" 24] have "(2::real) powi (e + 1) = 2 powi (e - 23) * 2 powi 24"
    by (simp only:)
  then show ?thesis by simp
qed

lemma ulp_times_2_23: "2 ^ 23 * (2::real) powi (e - 23) = 2 powi e"
proof -
  have "e - 23 + 23 = e" by simp
  with two_powi_add [of "e - 23" 23] have "(2::real) powi e = 2 powi (e - 23) * 2 powi 23"
    by (simp only:)
  then show ?thesis by simp
qed

lemma f32_nonneg: "0 \<le> x \<Longrightarrow> 0 \<le> f32 x"
proof -
  assume "0 \<le> x"
  then have "0 \<le> x / f32_ulp x" using f32_ulp_pos [of x] by simp
  then have "0 \<le> \<lfloor>x / f32_ulp x\<rfloor>" by simp
  with round_even_range [of "x / f32_ulp x"] have "0 \<le> round_even (x / f32_ulp x)" by linarith
  then show ?thesis using f32_ulp_pos [of x] by (simp add: f32_def)
qed

lemma f32_upper:
  assumes "f32_exponent x < 127" "0 \<le> x"
  shows "f32 x \<le> 2 powi (f32_exponent x + 1)"
proof -
  let ?u = "f32_ulp x"
  have u: "0 < ?u" by (rule f32_ulp_pos)
  from f32_exponent_upper [OF assms(1)] assms(2)
  have "x \<le> 2 ^ 24 * ?u" unfolding f32_ulp_def ulp_times_2_24 by simp
  then have "x / ?u \<le> of_int (2 ^ 24)" using u by (simp add: field_simps)
  then have "round_even (x / ?u) \<le> round_even (of_int (2 ^ 24))" by (rule round_even_mono)
  then have "round_even (x / ?u) \<le> 2 ^ 24" by (simp only: round_even_of_int)
  then have "real_of_int (round_even (x / ?u)) \<le> 2 ^ 24" by simp
  then have "f32 x \<le> 2 ^ 24 * ?u" unfolding f32_def using u by (intro mult_right_mono) simp_all
  then show ?thesis unfolding f32_ulp_def ulp_times_2_24 .
qed

lemma f32_lower:
  assumes "- 126 < f32_exponent x" "0 \<le> x"
  shows "2 powi (f32_exponent x) \<le> f32 x"
proof -
  let ?u = "f32_ulp x"
  have u: "0 < ?u" by (rule f32_ulp_pos)
  from f32_exponent_lower [OF assms(1)] assms(2)
  have "2 ^ 23 * ?u \<le> x" unfolding f32_ulp_def ulp_times_2_23 by simp
  then have "of_int (2 ^ 23) \<le> x / ?u" using u by (simp add: field_simps)
  then have "round_even (of_int (2 ^ 23)) \<le> round_even (x / ?u)" by (rule round_even_mono)
  then have "2 ^ 23 \<le> round_even (x / ?u)" by (simp only: round_even_of_int)
  then have "2 ^ 23 \<le> real_of_int (round_even (x / ?u))" by simp
  then have "2 ^ 23 * ?u \<le> f32 x" unfolding f32_def using u by (intro mult_right_mono) simp_all
  then show ?thesis unfolding f32_ulp_def ulp_times_2_23 .
qed

lemma f32_mono_nonneg:
  assumes "0 \<le> x" "x \<le> y"
  shows "f32 x \<le> f32 y"
proof -
  from assms have e: "f32_exponent x \<le> f32_exponent y" by (intro f32_exponent_mono) simp
  show ?thesis
  proof (cases "f32_exponent x = f32_exponent y")
    case True
    then have u: "f32_ulp x = f32_ulp y" by (simp add: f32_ulp_def)
    have "x / f32_ulp y \<le> y / f32_ulp y"
      using assms f32_ulp_pos [of y] by (intro divide_right_mono) simp_all
    then have "round_even (x / f32_ulp y) \<le> round_even (y / f32_ulp y)" by (rule round_even_mono)
    then have "real_of_int (round_even (x / f32_ulp y)) \<le> real_of_int (round_even (y / f32_ulp y))"
      by linarith
    then show ?thesis unfolding f32_def u using f32_ulp_pos [of y] by (intro mult_right_mono) simp_all
  next
    case False
    with e have lt: "f32_exponent x < f32_exponent y" by simp
    with f32_exponent_range [of x] f32_exponent_range [of y]
    have a: "f32_exponent x < 127" "- 126 < f32_exponent y" by simp_all
    from assms have y: "0 \<le> y" by simp
    have "f32 x \<le> 2 powi (f32_exponent x + 1)" using a(1) assms(1) by (rule f32_upper)
    also have "\<dots> \<le> 2 powi (f32_exponent y)" using lt by (intro two_powi_le) simp
    also have "\<dots> \<le> f32 y" using a(2) y by (rule f32_lower)
    finally show ?thesis .
  qed
qed

lemma f32_mono: "x \<le> y \<Longrightarrow> f32 x \<le> f32 y"
proof -
  assume xy: "x \<le> y"
  consider "0 \<le> x" | "y \<le> 0" | "x < 0" "0 < y" by linarith
  then show ?thesis
  proof cases
    case 1
    then show ?thesis using xy by (rule f32_mono_nonneg)
  next
    case 2
    with xy have "f32 (- y) \<le> f32 (- x)" by (intro f32_mono_nonneg) simp_all
    then show ?thesis by (simp add: f32_minus)
  next
    case 3
    then have "0 \<le> f32 y" "0 \<le> f32 (- x)" by (simp_all add: f32_nonneg)
    then show ?thesis by (simp add: f32_minus)
  qed
qed

text \<open>Every integer multiple of a power of two with at most 24 significant bits is a value.\<close>

lemma f32_dyadic:
  assumes m: "\<bar>m\<bar> \<le> 2 ^ 24" and j: "- 149 \<le> j"
  shows "f32 (of_int m * 2 powi j) = of_int m * 2 powi j"
proof -
  let ?x = "real_of_int m * 2 powi j"
  let ?E = "f32_exponent ?x"
  have absx: "\<bar>?x\<bar> = real_of_int \<bar>m\<bar> * 2 powi j" by (simp add: abs_mult)
  have ratio: "?x / f32_ulp ?x = real_of_int m * 2 powi (j - (?E - 23))"
    by (simp add: f32_ulp_def two_powi_diff)
  show ?thesis
  proof (cases "?E \<le> j + 23")
    case True
    then have "(2::real) powi (j - (?E - 23)) = 2 ^ nat (j - (?E - 23))"
      by (simp add: power_int_def)
    then have "?x / f32_ulp ?x = of_int (m * 2 ^ nat (j - (?E - 23)))"
      by (simp add: ratio)
    then have "?x / f32_ulp ?x \<in> \<int>" by (simp only: Ints_of_int)
    then show ?thesis by (rule f32_fix)
  next
    case False
    then have lt: "j + 24 \<le> ?E" by simp
    with j have "- 126 < ?E" by simp
    from f32_exponent_lower [OF this] have "2 powi ?E \<le> real_of_int \<bar>m\<bar> * 2 powi j"
      by (simp only: absx)
    moreover have "real_of_int \<bar>m\<bar> * 2 powi j \<le> 2 ^ 24 * 2 powi j"
      using m by (intro mult_right_mono) (simp_all add: of_int_le_numeral_power_cancel_iff [symmetric] del: of_int_le_numeral_power_cancel_iff)
    moreover have "2 ^ 24 * (2::real) powi j = 2 powi (j + 24)"
      using two_powi_add [of j 24] by simp
    ultimately have le: "(2::real) powi ?E \<le> 2 powi (j + 24)"
      and ge: "2 powi ?E \<le> real_of_int \<bar>m\<bar> * 2 powi j" by linarith+
    from le have "?E \<le> j + 24" by (rule two_powi_le_D)
    with lt have E: "?E = j + 24" by simp
    from ge have "2 ^ 24 * (2::real) powi j \<le> real_of_int \<bar>m\<bar> * 2 powi j"
      using two_powi_add [of j 24] by (simp add: E)
    then have "(2::real) ^ 24 \<le> real_of_int \<bar>m\<bar>" by simp
    then have "2 ^ 24 \<le> \<bar>m\<bar>" by simp
    with m have am: "\<bar>m\<bar> = 2 ^ 24" by simp
    have "(2::real) powi (j - (?E - 23)) = 1 / 2" by (simp add: E)
    then have "?x / f32_ulp ?x = real_of_int m / 2" by (simp add: ratio)
    moreover have "real_of_int m / 2 \<in> \<int>"
    proof (cases "0 \<le> m")
      case True
      with am have "m = 2 ^ 24" by simp
      then have "real_of_int m / 2 = of_int (2 ^ 23)" by simp
      then show ?thesis by (simp only: Ints_of_int)
    next
      case False
      with am have "m = - (2 ^ 24)" by simp
      then have "real_of_int m / 2 = of_int (- (2 ^ 23))" by simp
      then show ?thesis by (simp only: Ints_of_int)
    qed
    ultimately have "?x / f32_ulp ?x \<in> \<int>" by (simp only:)
    then show ?thesis by (rule f32_fix)
  qed
qed

lemma f32_of_int: "\<bar>k\<bar> \<le> 2 ^ 24 \<Longrightarrow> f32 (of_int k) = of_int k"
  using f32_dyadic [of k 0] by simp

lemma f32_1: "f32 1 = 1"
  using f32_of_int [of 1] by simp





section \<open>The circular buffer in binary32\<close>

subsection \<open>Round trip\<close>

lemma f32_16777218: "f32 16777218 = 16777218"
  using f32_dyadic [of 8388609 1] by simp

lemma f32_16777217: "f32 16777217 = 16777216"
  using f32_at [of 24 16777217] by (simp add: round_even_def)

lemma f32_16777216: "f32 16777216 = 16777216"
  using f32_of_int [of 16777216] by simp

text \<open>
  C6, counterexample. The claim: for every capacity \<open>N \<ge> 2\<close>, after \<^verbatim>\<open>Init(N)\<close> and
  \<^verbatim>\<open>Clear()\<close>, writing \<open>N\<close> samples and reading at an integer delay \<open>d\<close> in \<open>[1, N - 1]\<close>
  returns the sample written \<open>d\<close> writes before the head. At \<open>N = 2 ^ 24 + 2\<close> and \<open>d = 1\<close>
  the head is back at \<open>0\<close> after the \<open>N\<close> writes, \<^verbatim>\<open>m_head + bufferSize\<close> is \<open>16777218\<close>,
  a binary32 number, and the read position \<open>16777218 - 1 = 16777217\<close> is not: it lies
  halfway between \<open>16777216\<close> and \<open>16777218\<close> and is rounded to the even one, \<open>16777216\<close>.
  The read returns the sample at index \<open>N - 2\<close>, here \<open>0\<close>, and not the last sample
  written, at index \<open>N - 1\<close>, here \<open>1\<close>.
\<close>

theorem ReadDelay32_round_trip_counterexample:
  "Option.bind
     (writeSamples (CircularBuffer_Clear (CircularBuffer_Init (\<lambda>_. 0) 16777218))
        (replicate 16777217 0 @ [1]))
     (\<lambda>cb. ReadDelay32 cb 1) = Some 0 \<and>
   (replicate 16777217 0 @ [1]) ! nat (16777218 - 1) = (1::real)"
proof -
  let ?xs = "replicate 16777217 0 @ [1::real]"
  let ?cb = "\<lparr>m_buffer = ?xs, m_head = 0, m_size = 16777218\<rparr>"
  have w: "writeSamples (CircularBuffer_Clear (CircularBuffer_Init (\<lambda>_. 0) 16777218)) ?xs = Some ?cb"
    by (intro writeSamples_full) simp_all
  have r: "readIdx32 ?cb 1 = 16777216"
    by (simp add: readIdx32_def f32_16777218 f32_16777217)
  have f: "flr32 ?cb 1 = 16777216"
    unfolding flr32_def r by (simp add: static_cast_int_def)
  have wt: "weight32 ?cb 1 = 0"
    unfolding weight32_def f r by (simp add: f32_16777216 f32_0)
  have ip: "iPrev32 ?cb 1 = 16777216" by (simp add: iPrev32_def f)
  have inx: "iNext32 ?cb 1 = 16777217" by (simp add: iNext32_def f)
  have gp: "getSample ?cb 16777216 = Some 0" by (simp add: getSample_def nth_append)
  have gn: "getSample ?cb 16777217 = Some 1" by (simp add: getSample_def nth_append)
  have "ReadDelay32 ?cb 1 = Some 0"
    by (simp add: ReadDelay32_def ip inx gp gn wt f32_0 f32_1)
  moreover have "?xs ! nat (16777218 - 1) = 1" by (simp add: nth_append)
  ultimately show ?thesis by (simp add: w)
qed

text \<open>
  C6, amended. Round trip: for a capacity \<open>N\<close> from \<open>2\<close> to \<open>2 ^ 24\<close>, after \<^verbatim>\<open>Init(N)\<close> and
  \<^verbatim>\<open>Clear()\<close>, writing \<open>N\<close> samples \<open>xs\<close>, each a binary32 number, and reading at an integer
  delay \<open>d\<close> in \<open>[1, N - 1]\<close> returns the sample written \<open>d\<close> writes before the head,
  \<open>xs ! (N - d)\<close>, exactly: up to \<open>2 ^ 24\<close> every integer is a binary32 number, the read
  position is exact, the weight is \<open>0\<close>, and the products \<open>p * 1\<close> and \<open>n * 0\<close> and their
  sum are exact. (The last sample written, \<open>xs ! (N - 1)\<close>, is one write before the head.)
\<close>

theorem ReadDelay32_round_trip:
  assumes "2 \<le> N" "N \<le> 2 ^ 24" "length xs = nat N" "\<forall>x\<in>set xs. f32 x = x"
    "1 \<le> d" "d \<le> N - 1"
  shows "Option.bind (writeSamples (CircularBuffer_Clear (CircularBuffer_Init mem N)) xs)
           (\<lambda>cb. ReadDelay32 cb (real_of_int d)) = Some (xs ! nat (N - d))"
proof -
  let ?cb = "\<lparr>m_buffer = xs, m_head = 0, m_size = N\<rparr>"
  have w: "writeSamples (CircularBuffer_Clear (CircularBuffer_Init mem N)) xs = Some ?cb"
    using assms by (intro writeSamples_full) simp_all
  have fN: "f32 (real_of_int N) = real_of_int N"
    using assms by (intro f32_of_int) simp
  have fd: "f32 (real_of_int (N - d)) = real_of_int (N - d)"
    using assms by (intro f32_of_int) simp
  have r: "readIdx32 ?cb (real_of_int d) = real_of_int (N - d)"
    using fd by (simp add: readIdx32_def fN)
  have f: "flr32 ?cb (real_of_int d) = N - d"
    unfolding flr32_def r by (rule static_cast_int_of_int)
  have wt: "weight32 ?cb (real_of_int d) = 0"
    unfolding weight32_def f r fd by (simp add: f32_0)
  have ip: "iPrev32 ?cb (real_of_int d) = N - d"
    using assms by (simp add: iPrev32_def f)
  have inx: "0 \<le> iNext32 ?cb (real_of_int d) \<and> iNext32 ?cb (real_of_int d) < N"
    using assms by (simp add: iNext32_def f Let_def)
  have "nat (N - d) < length xs" using assms by simp
  then have "xs ! nat (N - d) \<in> set xs" by (rule nth_mem)
  with assms(4) have fp: "f32 (xs ! nat (N - d)) = xs ! nat (N - d)" by blast
  have gp: "getSample ?cb (N - d) = Some (xs ! nat (N - d))"
    using assms by (simp add: getSample_def)
  obtain v where gn: "getSample ?cb (iNext32 ?cb (real_of_int d)) = Some v"
    using inx assms by (simp add: getSample_def)
  have "ReadDelay32 ?cb (real_of_int d) = Some (xs ! nat (N - d))"
    by (simp add: ReadDelay32_def ip gp gn wt f32_0 f32_1 fp)
  then show ?thesis by (simp add: w)
qed

theorem ReadDelay32_round_trip_witness:
  "Option.bind (writeSamples (CircularBuffer_Clear (CircularBuffer_Init (\<lambda>_. 7) 4)) [10, 20, 30, 40])
     (\<lambda>cb. ReadDelay32 cb (real_of_int 1)) = Some 40 \<and>
   Option.bind (writeSamples (CircularBuffer_Clear (CircularBuffer_Init (\<lambda>_. 7) 4)) [10, 20, 30, 40])
     (\<lambda>cb. ReadDelay32 cb (real_of_int 3)) = Some 20"
proof -
  have f: "\<forall>x\<in>set [10, 20, 30, 40 :: real]. f32 x = x"
    using f32_of_int [of 10] f32_of_int [of 20] f32_of_int [of 30] f32_of_int [of 40] by simp
  have a: "Option.bind (writeSamples (CircularBuffer_Clear (CircularBuffer_Init (\<lambda>_. 7) 4)) [10, 20, 30, 40])
     (\<lambda>cb. ReadDelay32 cb (real_of_int 1)) = Some ([10, 20, 30, 40] ! nat (4 - 1))"
    using f by (intro ReadDelay32_round_trip) simp_all
  have b: "Option.bind (writeSamples (CircularBuffer_Clear (CircularBuffer_Init (\<lambda>_. 7) 4)) [10, 20, 30, 40])
     (\<lambda>cb. ReadDelay32 cb (real_of_int 3)) = Some ([10, 20, 30, 40] ! nat (4 - 3))"
    using f by (intro ReadDelay32_round_trip) simp_all
  show ?thesis using a b by simp
qed

subsection \<open>Interpolation\<close>

text \<open>
  Three samples \<open>1.9f = 15938355 / 2 ^ 23\<close>, the head at \<open>1\<close>, the delay
  \<open>0.3f = 5033165 / 2 ^ 24\<close>: the roundings of \<^verbatim>\<open>ReadDelay\<close> one by one.
\<close>

lemma f32_c: "f32 (15938355 / 8388608) = 15938355 / 8388608"
  using f32_dyadic [of 15938355 "- 23"] by simp

lemma f32_delta: "f32 (5033165 / 16777216) = 5033165 / 16777216"
  using f32_dyadic [of 5033165 "- 24"] by simp

lemma f32_4: "f32 4 = 4"
  using f32_of_int [of 4] by simp

lemma f32_3: "f32 3 = 3"
  using f32_of_int [of 3] by simp

lemma step_readIdx: "f32 (4 - 5033165 / 16777216) = 15518925 / 4194304"
  using f32_at [of 1 "4 - 5033165 / 16777216"] by (simp add: round_even_def)

lemma step_weight: "f32 (15518925 / 4194304 - 3) = 2936013 / 4194304"
  using f32_dyadic [of 2936013 "- 22"] by simp

lemma step_w1: "f32 (1 - 2936013 / 4194304) = 1258291 / 4194304"
  using f32_dyadic [of 1258291 "- 22"] by simp

lemma step_a: "f32 (15938355 / 8388608 * (1258291 / 4194304)) = 9563011 / 16777216"
  using f32_at [of "- 1" "15938355 / 8388608 * (1258291 / 4194304)"] by (simp add: round_even_def)

lemma step_b: "f32 (15938355 / 8388608 * (2936013 / 4194304)) = 11156849 / 8388608"
  using f32_at [of 0 "15938355 / 8388608 * (2936013 / 4194304)"] by (simp add: round_even_def)

lemma step_r: "f32 (9563011 / 16777216 + 11156849 / 8388608) = 7969177 / 4194304"
  using f32_at [of 0 "9563011 / 16777216 + 11156849 / 8388608"] by (simp add: round_even_def)

lemma ReadDelay32_below_both:
  "ReadDelay32
     \<lparr>m_buffer = [15938355 / 8388608, 15938355 / 8388608, 15938355 / 8388608],
      m_head = 1, m_size = 3\<rparr> (5033165 / 16777216) = Some (7969177 / 4194304)"
proof -
  let ?c = "15938355 / 8388608 :: real"
  let ?cb = "\<lparr>m_buffer = [?c, ?c, ?c], m_head = 1, m_size = 3\<rparr>"
  let ?d = "5033165 / 16777216 :: real"
  have r: "readIdx32 ?cb ?d = 15518925 / 4194304"
    using step_readIdx by (simp add: readIdx32_def f32_4)
  have f: "flr32 ?cb ?d = 3"
    unfolding flr32_def r by (simp add: static_cast_int_def)
  have wt: "weight32 ?cb ?d = 2936013 / 4194304"
    unfolding weight32_def f r using step_weight by (simp add: f32_3)
  have ip: "iPrev32 ?cb ?d = 0" by (simp add: iPrev32_def f)
  have inx: "iNext32 ?cb ?d = 1" by (simp add: iNext32_def f)
  have gp: "getSample ?cb 0 = Some ?c" by (simp add: getSample_def)
  have gn: "getSample ?cb 1 = Some ?c" by (simp add: getSample_def)
  have v: "f32 (f32 (?c * f32 (1 - 2936013 / 4194304)) + f32 (?c * (2936013 / 4194304)))
           = 7969177 / 4194304"
    by (simp only: step_w1 step_a step_b step_r)
  show ?thesis
    unfolding ReadDelay32_def ip inx gp gn wt by (simp only: v Option.bind.simps)
qed

text \<open>
  A small delay: the read position rounds up to \<^verbatim>\<open>m_head + bufferSize\<close>, and with the head
  at the last slot the second index is the size itself.
\<close>

lemma tiny_delay_out_of_range:
  "iNext32 \<lparr>m_buffer = [1, 3, 2, 5], m_head = 3, m_size = 4\<rparr> (1 / 1073741824) = 4 \<and>
   ReadDelay32 \<lparr>m_buffer = [1, 3, 2, 5], m_head = 3, m_size = 4\<rparr> (1 / 1073741824) = None"
proof -
  let ?cb = "\<lparr>m_buffer = [1, 3, 2, 5], m_head = 3, m_size = 4\<rparr>"
  have "f32 (7 - 1 / 1073741824) = 7"
    using f32_at [of 2 "7 - 1 / 1073741824"] by (simp add: round_even_def)
  then have r: "readIdx32 ?cb (1 / 1073741824) = 7"
    using f32_of_int [of 7] by (simp add: readIdx32_def)
  have i: "iPrev32 ?cb (1 / 1073741824) = 3" "iNext32 ?cb (1 / 1073741824) = 4"
    by (simp_all add: iPrev32_def iNext32_def flr32_def r static_cast_int_def)
  show ?thesis by (simp add: ReadDelay32_def i getSample_def)
qed

text \<open>
  C7, counterexample. The claim: for every buffer state and every delay in \<open>[0, size)\<close>
  strictly between two adjacent integers, \<^verbatim>\<open>ReadDelay\<close> returns a value between the two
  stored samples it interpolates. Two runs in binary32:
  \<^item> three samples \<open>1.9f\<close>, the head at \<open>1\<close>, the delay \<open>0.3f\<close>. The weight is
    \<open>2936013 / 2 ^ 22\<close>, the two products round to \<open>9563011 / 2 ^ 24\<close> and
    \<open>11156849 / 2 ^ 23\<close>, and their sum rounds to \<open>7969177 / 2 ^ 22 = 15938354 / 2 ^ 23\<close>,
    one unit in the last place below both neighbours;
  \<^item> four samples, the head at \<open>3\<close>, the delay \<open>2 ^ -30\<close>. The read position \<open>7 - 2 ^ -30\<close>
    rounds to \<open>7\<close>, so \<^verbatim>\<open>flr\<close> is \<open>7\<close>, \<^verbatim>\<open>iPrev\<close> is \<open>3\<close> and \<^verbatim>\<open>iNext\<close> is \<open>8 - 4 = 4\<close>,
    the size of the buffer: the second read is outside the storage.
\<close>

theorem ReadDelay32_neighbours_counterexample:
  "ReadDelay32
     \<lparr>m_buffer = [15938355 / 8388608, 15938355 / 8388608, 15938355 / 8388608],
      m_head = 1, m_size = 3\<rparr> (5033165 / 16777216) = Some (7969177 / 4194304) \<and>
   7969177 / 4194304 < (15938355 / 8388608 :: real) \<and>
   iNext32 \<lparr>m_buffer = [1, 3, 2, 5], m_head = 3, m_size = 4\<rparr> (1 / 1073741824) = 4 \<and>
   ReadDelay32 \<lparr>m_buffer = [1, 3, 2, 5], m_head = 3, m_size = 4\<rparr> (1 / 1073741824) = None"
proof -
  have "7969177 / 4194304 < (15938355 / 8388608 :: real)" by simp
  with ReadDelay32_below_both tiny_delay_out_of_range show ?thesis by (simp only: simp_thms)
qed

text \<open>The interpolation with its three roundings stays near the exact value.\<close>

lemma interp32_bound:
  fixes p n w :: real
  assumes w: "0 \<le> w" "w \<le> 1"
  defines "M \<equiv> max \<bar>p\<bar> \<bar>n\<bar>"
  defines "r \<equiv> f32 (f32 (p * f32 (1 - w)) + f32 (n * w))"
  shows "min p n - (M / 2 ^ 21 + 1 / 2 ^ 148) \<le> r \<and> r \<le> max p n + (M / 2 ^ 21 + 1 / 2 ^ 148)"
proof -
  define w1 where "w1 = f32 (1 - w)"
  define a where "a = f32 (p * w1)"
  define b where "b = f32 (n * w)"
  have r: "r = f32 (a + b)" by (simp add: r_def a_def b_def w1_def)
  have M: "\<bar>p\<bar> \<le> M" "\<bar>n\<bar> \<le> M" "0 \<le> M" by (simp_all add: M_def)
  have w1: "0 \<le> w1" "w1 \<le> 1"
    using f32_mono [of 0 "1 - w"] f32_mono [of "1 - w" 1] w by (simp_all add: w1_def f32_0 f32_1)
  have e0: "\<bar>w1 - (1 - w)\<bar> \<le> 1 / 2 ^ 24 + 1 / 2 ^ 150"
  proof -
    have "\<bar>1 - w\<bar> / 2 ^ 24 \<le> 1 / 2 ^ 24" using w by (intro divide_right_mono) simp_all
    with f32_err_rel [of "1 - w"] show ?thesis unfolding w1_def by linarith
  qed
  have pw: "\<bar>p * w1\<bar> \<le> M"
  proof -
    have "\<bar>p * w1\<bar> = \<bar>p\<bar> * w1" using w1 by (simp add: abs_mult)
    also have "\<dots> \<le> M * 1" using M w1 by (intro mult_mono) simp_all
    finally show ?thesis by simp
  qed
  have nw: "\<bar>n * w\<bar> \<le> M"
  proof -
    have "\<bar>n * w\<bar> = \<bar>n\<bar> * w" using w by (simp add: abs_mult)
    also have "\<dots> \<le> M * 1" using M w by (intro mult_mono) simp_all
    finally show ?thesis by simp
  qed
  have e1: "\<bar>a - p * w1\<bar> \<le> M / 2 ^ 24 + 1 / 2 ^ 150"
  proof -
    have "\<bar>p * w1\<bar> / 2 ^ 24 \<le> M / 2 ^ 24" using pw by (intro divide_right_mono) simp_all
    with f32_err_rel [of "p * w1"] show ?thesis unfolding a_def by linarith
  qed
  have e2: "\<bar>b - n * w\<bar> \<le> M / 2 ^ 24 + 1 / 2 ^ 150"
  proof -
    have "\<bar>n * w\<bar> / 2 ^ 24 \<le> M / 2 ^ 24" using nw by (intro divide_right_mono) simp_all
    with f32_err_rel [of "n * w"] show ?thesis unfolding b_def by linarith
  qed
  have ab: "\<bar>a + b\<bar> \<le> 2 * M + M / 2 ^ 23 + 1 / 2 ^ 149"
    using e1 e2 pw nw by (simp add: abs_le_iff) 
  have e3: "\<bar>r - (a + b)\<bar> \<le> (2 * M + M / 2 ^ 23 + 1 / 2 ^ 149) / 2 ^ 24 + 1 / 2 ^ 150"
  proof -
    have "\<bar>a + b\<bar> / 2 ^ 24 \<le> (2 * M + M / 2 ^ 23 + 1 / 2 ^ 149) / 2 ^ 24"
      using ab by (intro divide_right_mono) simp_all
    with f32_err_rel [of "a + b"] show ?thesis unfolding r by linarith
  qed
  have q: "\<bar>p * w1 - p * (1 - w)\<bar> \<le> M * (1 / 2 ^ 24 + 1 / 2 ^ 150)"
  proof -
    have "\<bar>p * w1 - p * (1 - w)\<bar> = \<bar>p\<bar> * \<bar>w1 - (1 - w)\<bar>"
      by (simp add: abs_mult [symmetric] right_diff_distrib)
    also have "\<dots> \<le> M * (1 / 2 ^ 24 + 1 / 2 ^ 150)"
      using M e0 by (intro mult_mono) simp_all
    finally show ?thesis .
  qed
  have c: "min p n \<le> p * (1 - w) + n * w" "p * (1 - w) + n * w \<le> max p n"
    using convex_between [OF w, of p n] by simp_all
  have split: "r - (p * (1 - w) + n * w)
               = (r - (a + b)) + (a - p * w1) + (b - n * w) + (p * w1 - p * (1 - w))"
    by simp
  have "\<bar>r - (p * (1 - w) + n * w)\<bar>
          \<le> \<bar>r - (a + b)\<bar> + \<bar>a - p * w1\<bar> + \<bar>b - n * w\<bar> + \<bar>p * w1 - p * (1 - w)\<bar>"
    unfolding split by linarith
  also have "\<dots> \<le> ((2 * M + M / 2 ^ 23 + 1 / 2 ^ 149) / 2 ^ 24 + 1 / 2 ^ 150)
                 + (M / 2 ^ 24 + 1 / 2 ^ 150) + (M / 2 ^ 24 + 1 / 2 ^ 150)
                 + M * (1 / 2 ^ 24 + 1 / 2 ^ 150)"
    using e1 e2 e3 q by linarith
  also have "\<dots> \<le> M / 2 ^ 21 + 1 / 2 ^ 148"
    using M(3) by (simp add: field_simps)
  finally have "\<bar>r - (p * (1 - w) + n * w)\<bar> \<le> M / 2 ^ 21 + 1 / 2 ^ 148" .
  with c show ?thesis by linarith
qed

lemma f32_ulp_le_1:
  assumes "\<bar>x\<bar> < 2 ^ 24"
  shows "f32_ulp x \<le> 1"
proof -
  have "f32_exponent x \<le> 23"
  proof (rule ccontr)
    assume "\<not> f32_exponent x \<le> 23"
    then have g: "24 \<le> f32_exponent x" by simp
    then have "- 126 < f32_exponent x" by simp
    from f32_exponent_lower [OF this] assms
    have "(2::real) powi f32_exponent x < 2 powi 24" by simp
    then have "f32_exponent x < 24" by (rule two_powi_less_D)
    with g show False by simp
  qed
  then have "(2::real) powi (f32_exponent x - 23) \<le> 2 powi 0" by (intro two_powi_le) simp
  then show ?thesis by (simp add: f32_ulp_def)
qed

text \<open>Below \<open>2 ^ 24\<close> rounding moves a value by at most one half.\<close>

lemma f32_below_int:
  assumes "0 \<le> x" "x < real_of_int H - 1 / 2" "H \<le> 2 ^ 24"
  shows "f32 x < real_of_int H"
proof -
  from assms(3) have "real_of_int H \<le> real_of_int (2 ^ 24)" by (simp only: of_int_le_iff)
  then have "real_of_int H \<le> 2 ^ 24" by simp
  with assms have "\<bar>x\<bar> < 2 ^ 24" by simp
  then have "f32_ulp x \<le> 1" by (rule f32_ulp_le_1)
  with f32_err [of x] have "f32 x \<le> x + 1 / 2" by linarith
  with assms(2) show ?thesis by linarith
qed

text \<open>
  C7, amended. Interpolation: on a buffer whose storage has \<open>m_size\<close> samples, at most
  \<open>2 ^ 23\<close> of them and each of magnitude at most \<open>2 ^ 126\<close>, with the head in \<open>[0, size)\<close>
  and a delay above \<open>1 / 2\<close> and below the size, both indices of \<^verbatim>\<open>ReadDelay\<close> are in
  \<open>[0, size)\<close>, the weight is in \<open>[0, 1]\<close>, and the value returned lies between the two
  stored samples it interpolates up to the rounding error
  \<open>max \<bar>p\<bar> \<bar>n\<bar> / 2 ^ 21 + 1 / 2 ^ 148\<close>, where \<open>p\<close> and \<open>n\<close> are the two samples.
\<close>

theorem ReadDelay32_near_neighbours:
  assumes len: "length (m_buffer cb) = nat (m_size cb)"
    and h0: "0 \<le> m_head cb" and h1: "m_head cb < m_size cb"
    and sz: "m_size cb \<le> 2 ^ 23"
    and d0: "1 / 2 < delaySamples" and d1: "delaySamples < real_of_int (m_size cb)"
    and mag: "\<forall>x\<in>set (m_buffer cb). \<bar>x\<bar> \<le> 2 ^ 126"
  shows "0 \<le> iPrev32 cb delaySamples \<and> iPrev32 cb delaySamples < m_size cb \<and>
         0 \<le> iNext32 cb delaySamples \<and> iNext32 cb delaySamples < m_size cb \<and>
         0 \<le> weight32 cb delaySamples \<and> weight32 cb delaySamples \<le> 1 \<and>
         (\<exists>r. ReadDelay32 cb delaySamples = Some r \<and>
            min (m_buffer cb ! nat (iPrev32 cb delaySamples))
                (m_buffer cb ! nat (iNext32 cb delaySamples))
              - (max \<bar>m_buffer cb ! nat (iPrev32 cb delaySamples)\<bar>
                     \<bar>m_buffer cb ! nat (iNext32 cb delaySamples)\<bar> / 2 ^ 21 + 1 / 2 ^ 148) \<le> r \<and>
            r \<le> max (m_buffer cb ! nat (iPrev32 cb delaySamples))
                    (m_buffer cb ! nat (iNext32 cb delaySamples))
              + (max \<bar>m_buffer cb ! nat (iPrev32 cb delaySamples)\<bar>
                     \<bar>m_buffer cb ! nat (iNext32 cb delaySamples)\<bar> / 2 ^ 21 + 1 / 2 ^ 148))"
proof -
  let ?H = "m_head cb + m_size cb"
  let ?R = "readIdx32 cb delaySamples"
  let ?k = "flr32 cb delaySamples"
  have H: "\<bar>?H\<bar> \<le> 2 ^ 24" "\<bar>?H - 1\<bar> \<le> 2 ^ 24" "\<bar>m_head cb\<bar> \<le> 2 ^ 24"
    using h0 h1 sz by simp_all
  have fH: "f32 (real_of_int ?H) = real_of_int ?H" using H(1) by (rule f32_of_int)
  have R: "?R = f32 (real_of_int ?H - delaySamples)" by (simp only: readIdx32_def fH)
  have "0 \<le> real_of_int ?H - delaySamples" using d1 h0 by simp
  moreover have "real_of_int ?H - delaySamples < real_of_int ?H - 1 / 2" using d0 by simp
  moreover have "?H \<le> 2 ^ 24" using H(1) by simp
  ultimately have Rhi: "?R < real_of_int ?H" unfolding R by (rule f32_below_int)
  have "real_of_int (m_head cb) \<le> real_of_int ?H - delaySamples" using d1 by simp
  then have "f32 (real_of_int (m_head cb)) \<le> ?R" unfolding R by (rule f32_mono)
  then have Rlo: "real_of_int (m_head cb) \<le> ?R" using f32_of_int [OF H(3)] by simp
  have Rpos: "0 \<le> ?R" using Rlo h0 by linarith
  have k: "?k = \<lfloor>?R\<rfloor>" using Rpos by (simp add: flr32_def static_cast_int_def)
  have klo: "m_head cb \<le> ?k" unfolding k using Rlo by (simp add: le_floor_iff)
  from Rhi have "\<lfloor>?R\<rfloor> < ?H" by (simp only: floor_less_iff)
  then have khi: "?k \<le> ?H - 1" unfolding k by simp
  have "\<bar>?k\<bar> \<le> 2 ^ 24" using klo khi h0 H by linarith
  then have fk: "f32 (real_of_int ?k) = real_of_int ?k" by (rule f32_of_int)
  have "0 \<le> ?R - real_of_int ?k" "?R - real_of_int ?k \<le> 1" unfolding k by linarith+
  then have "f32 0 \<le> f32 (?R - real_of_int ?k)" "f32 (?R - real_of_int ?k) \<le> f32 1"
    by (simp_all only: f32_mono)
  then have w: "0 \<le> weight32 cb delaySamples" "weight32 cb delaySamples \<le> 1"
    by (simp_all add: weight32_def fk f32_0 f32_1)
  have ip: "0 \<le> iPrev32 cb delaySamples \<and> iPrev32 cb delaySamples < m_size cb"
    using klo khi h0 h1 by (auto simp add: iPrev32_def)
  have inx: "0 \<le> iNext32 cb delaySamples \<and> iNext32 cb delaySamples < m_size cb"
    using klo khi h0 h1 by (auto simp add: iNext32_def Let_def)
  have gp: "getSample cb (iPrev32 cb delaySamples)
            = Some (m_buffer cb ! nat (iPrev32 cb delaySamples))"
    using ip len by (simp add: getSample_def)
  have gn: "getSample cb (iNext32 cb delaySamples)
            = Some (m_buffer cb ! nat (iNext32 cb delaySamples))"
    using inx len by (simp add: getSample_def)
  have rd: "ReadDelay32 cb delaySamples
            = Some (f32 (f32 (m_buffer cb ! nat (iPrev32 cb delaySamples)
                              * f32 (1 - weight32 cb delaySamples))
                  + f32 (m_buffer cb ! nat (iNext32 cb delaySamples) * weight32 cb delaySamples)))"
    by (simp add: ReadDelay32_def gp gn)
  from interp32_bound [OF w, of "m_buffer cb ! nat (iPrev32 cb delaySamples)"
         "m_buffer cb ! nat (iNext32 cb delaySamples)"] rd ip inx w
  show ?thesis by simp
qed

theorem ReadDelay32_near_neighbours_witness:
  "iPrev32 \<lparr>m_buffer = [1, 3, 2], m_head = 1, m_size = 3\<rparr> (3 / 4) = 0 \<and>
   iNext32 \<lparr>m_buffer = [1, 3, 2], m_head = 1, m_size = 3\<rparr> (3 / 4) = 1 \<and>
   (\<exists>r. ReadDelay32 \<lparr>m_buffer = [1, 3, 2], m_head = 1, m_size = 3\<rparr> (3 / 4) = Some r \<and>
      1 - (3 / 2 ^ 21 + 1 / 2 ^ 148) \<le> r \<and> r \<le> 3 + (3 / 2 ^ 21 + 1 / 2 ^ 148))"
proof -
  let ?cb = "\<lparr>m_buffer = [1, 3, 2], m_head = 1, m_size = 3\<rparr>"
  have "f32 (13 / 4) = 13 / 4" using f32_dyadic [of 13 "- 2"] by simp
  then have r: "readIdx32 ?cb (3 / 4) = 13 / 4"
    using f32_of_int [of 4] by (simp add: readIdx32_def)
  have i: "iPrev32 ?cb (3 / 4) = 0" "iNext32 ?cb (3 / 4) = 1"
    by (simp_all add: iPrev32_def iNext32_def flr32_def r static_cast_int_def)
  from ReadDelay32_near_neighbours [of ?cb "3 / 4"] show ?thesis by (simp add: i)
qed

section \<open>The envelope follower in binary32 under a constant input\<close>








subsection \<open>Attack coefficient one half: the envelope reaches the input\<close>









subsection \<open>Attack coefficient 33 / 64: the envelope stops below the input\<close>































end
